theory Spec2Isabelle
  imports Main "HOL-Library.Word"
begin

section \<open>Data model of \<open>shared_ptr.hpp\<close>\<close>

text \<open>
  The header defines two classes, \<open>my::ControlBlock<T>\<close> and \<open>my::shared_ptr<T>\<close>.
  Control blocks live on the free store and are reached through raw pointers that several
  \<open>shared_ptr\<close> objects may hold at once, so the model keeps an explicit store:

  \<^item> the control blocks ever allocated, as a list; the address of a block is its position,
    \<open>new\<close> appends (so a fresh address never aliases an older one) and \<open>delete\<close> overwrites
    the cell with \<open>None\<close>;
  \<^item> the \<open>shared_ptr\<close> objects that are alive, by the address of the object (the identity
    that \<open>this != &other\<close> compares);
  \<^item> the trace of deleter invocations \<open>deleter_ptr_(ptr_)\<close>, as pairs of the deleter and its
    argument, and the payload addresses handed to \<open>delete\<close> by \<open>default_deleter\<close>.

  A payload pointer \<open>T*\<close> is a natural number, 0 being \<open>nullptr\<close>. A pointer to a control
  block is \<open>nat option\<close>, \<open>None\<close> being \<open>nullptr\<close>. The counters are
  \<open>std::atomic<size_t>\<close>: 64-bit words, read and written one thread at a time.
  Isabelle admits no name ending in an underscore, so the members \<open>ptr_\<close>, \<open>shared_refs_\<close>,
  \<open>weak_refs_\<close> and \<open>deleter_ptr_\<close> lose theirs (\<open>cb_ptr\<close> in the control block, \<open>sp_ptr\<close>
  in the handle). The diagnostic output of \<open>print_msg\<close> is left out.
\<close>

datatype error =
    NullDeref      \<comment> \<open>member access through a null control-block pointer\<close>
  | UseAfterFree   \<comment> \<open>member access through, or \<open>delete\<close> of, a deleted control block\<close>
  | WildPointer    \<comment> \<open>a control-block pointer that was never allocated\<close>
  | BadObject      \<comment> \<open>an operation on a \<open>shared_ptr\<close> object that is not alive, or
                       construction in storage that is in use\<close>

datatype deleter = default_deleter | custom_deleter nat

record ControlBlock =
  cb_ptr :: nat
  shared_refs :: "64 word"
  weak_refs :: "64 word"
  deleter_ptr :: deleter

record shared_ptr =
  sp_ptr :: nat
  control_block_ptr :: "nat option"

record heap =
  blocks :: "ControlBlock option list"
  objects :: "nat \<rightharpoonup> shared_ptr"
  deleter_calls :: "(deleter \<times> nat) list"
  payload_deletes :: "nat list"

definition empty_heap :: heap where
  "empty_heap = \<lparr>blocks = [], objects = Map.empty, deleter_calls = [], payload_deletes = []\<rparr>"

definition and_then :: "error + 'a \<Rightarrow> ('a \<Rightarrow> error + 'b) \<Rightarrow> error + 'b" where
  "and_then r f = (case r of Inl e \<Rightarrow> Inl e | Inr x \<Rightarrow> f x)"

section \<open>ControlBlock\<close>

text \<open>\<open>control_block_ptr->\<close>: the address and the block a pointer designates, or the
  undefined behaviour.\<close>

definition deref :: "heap \<Rightarrow> nat option \<Rightarrow> error + (nat \<times> ControlBlock)" where
  "deref s p =
     (case p of
        None \<Rightarrow> Inl NullDeref
      | Some a \<Rightarrow>
          if a < length (blocks s)
          then (case blocks s ! a of None \<Rightarrow> Inl UseAfterFree | Some cb \<Rightarrow> Inr (a, cb))
          else Inl WildPointer)"

definition store_block :: "nat \<Rightarrow> ControlBlock \<Rightarrow> heap \<Rightarrow> heap" where
  "store_block a cb s = s\<lparr>blocks := (blocks s)[a := Some cb]\<rparr>"

text \<open>\<open>new ControlBlock<T>(ptr)\<close> and \<open>new ControlBlock<T>(ptr, deleter)\<close>: the members'
  default initialisers give \<open>shared_refs_ = 1\<close> and \<open>weak_refs_ = 0\<close>; the one-argument
  constructor keeps the default deleter.\<close>

definition new_ControlBlock :: "nat \<Rightarrow> deleter \<Rightarrow> heap \<Rightarrow> nat option \<times> heap" where
  "new_ControlBlock p d s =
     (Some (length (blocks s)),
      s\<lparr>blocks := blocks s @
           [Some \<lparr>cb_ptr = p, shared_refs = 1, weak_refs = 0, deleter_ptr = d\<rparr>]\<rparr>)"

text \<open>\<open>delete control_block_ptr\<close>; deleting a null pointer does nothing.\<close>

definition delete_ControlBlock :: "nat option \<Rightarrow> heap \<Rightarrow> error + heap" where
  "delete_ControlBlock p s =
     (case p of
        None \<Rightarrow> Inr s
      | Some a \<Rightarrow>
          and_then (deref s p) (\<lambda>(a, cb). Inr (s\<lparr>blocks := (blocks s)[a := None]\<rparr>)))"

text \<open>\<open>default_deleter\<close> deletes a non-null payload. A user-supplied deleter is opaque: only
  its invocation is recorded, and it is taken not to touch control blocks or handles.\<close>

definition run_default_deleter :: "nat \<Rightarrow> heap \<Rightarrow> heap" where
  "run_default_deleter p s =
     (if p \<noteq> 0 then s\<lparr>payload_deletes := payload_deletes s @ [p]\<rparr> else s)"

definition invoke :: "deleter \<Rightarrow> nat \<Rightarrow> heap \<Rightarrow> heap" where
  "invoke d p s =
     (case d of
        default_deleter \<Rightarrow>
          run_default_deleter p (s\<lparr>deleter_calls := deleter_calls s @ [(d, p)]\<rparr>)
      | custom_deleter k \<Rightarrow> s\<lparr>deleter_calls := deleter_calls s @ [(d, p)]\<rparr>)"

definition call_deleter :: "nat option \<Rightarrow> heap \<Rightarrow> error + heap" where
  "call_deleter p s =
     and_then (deref s p) (\<lambda>(a, cb). Inr (invoke (deleter_ptr cb) (cb_ptr cb) s))"

definition get_shared_refs :: "nat option \<Rightarrow> heap \<Rightarrow> error + 64 word" where
  "get_shared_refs p s = and_then (deref s p) (\<lambda>(a, cb). Inr (shared_refs cb))"

definition get_weak_refs :: "nat option \<Rightarrow> heap \<Rightarrow> error + 64 word" where
  "get_weak_refs p s = and_then (deref s p) (\<lambda>(a, cb). Inr (weak_refs cb))"

text \<open>\<open>shared_refs_.exchange(shared_refs_ + 1)\<close>: unsigned, so the sum wraps.\<close>

definition increment_shared :: "nat option \<Rightarrow> heap \<Rightarrow> error + heap" where
  "increment_shared p s =
     and_then (deref s p)
       (\<lambda>(a, cb). Inr (store_block a (cb\<lparr>shared_refs := shared_refs cb + 1\<rparr>) s))"

definition decrement_shared :: "nat option \<Rightarrow> heap \<Rightarrow> error + heap" where
  "decrement_shared p s =
     and_then (deref s p)
       (\<lambda>(a, cb). if shared_refs cb \<noteq> 0
             then Inr (store_block a (cb\<lparr>shared_refs := shared_refs cb - 1\<rparr>) s)
             else Inr s)"

section \<open>shared_ptr\<close>

subsection \<open>Objects and their two members\<close>

definition read_ptr :: "nat \<Rightarrow> heap \<Rightarrow> error + nat" where
  "read_ptr this s =
     (case objects s this of None \<Rightarrow> Inl BadObject | Some sp \<Rightarrow> Inr (sp_ptr sp))"

definition read_cbp :: "nat \<Rightarrow> heap \<Rightarrow> error + nat option" where
  "read_cbp this s =
     (case objects s this of None \<Rightarrow> Inl BadObject | Some sp \<Rightarrow> Inr (control_block_ptr sp))"

definition write_ptr :: "nat \<Rightarrow> nat \<Rightarrow> heap \<Rightarrow> error + heap" where
  "write_ptr this v s =
     (case objects s this of
        None \<Rightarrow> Inl BadObject
      | Some sp \<Rightarrow> Inr (s\<lparr>objects := (objects s)(this \<mapsto> sp\<lparr>sp_ptr := v\<rparr>)\<rparr>))"

definition write_cbp :: "nat \<Rightarrow> nat option \<Rightarrow> heap \<Rightarrow> error + heap" where
  "write_cbp this v s =
     (case objects s this of
        None \<Rightarrow> Inl BadObject
      | Some sp \<Rightarrow> Inr (s\<lparr>objects := (objects s)(this \<mapsto> sp\<lparr>control_block_ptr := v\<rparr>)\<rparr>))"

text \<open>Storage for a new object, with the default member initialisers
  \<open>ptr_ = nullptr\<close> and \<open>control_block_ptr = nullptr\<close>; and the end of its lifetime.\<close>

definition alloc_object :: "nat \<Rightarrow> heap \<Rightarrow> error + heap" where
  "alloc_object this s =
     (case objects s this of
        Some sp \<Rightarrow> Inl BadObject
      | None \<Rightarrow>
          Inr (s\<lparr>objects := (objects s)(this \<mapsto> \<lparr>sp_ptr = 0, control_block_ptr = None\<rparr>)\<rparr>))"

definition free_object :: "nat \<Rightarrow> heap \<Rightarrow> error + heap" where
  "free_object this s =
     (case objects s this of
        None \<Rightarrow> Inl BadObject
      | Some sp \<Rightarrow> Inr (s\<lparr>objects := (objects s)(this := None)\<rparr>))"

subsection \<open>Constructors and destructor\<close>

text \<open>\<open>shared_ptr(T* ptr = nullptr)\<close>, lines 108-114.\<close>

definition shared_ptr_ctor :: "nat \<Rightarrow> nat \<Rightarrow> heap \<Rightarrow> error + heap" where
  "shared_ptr_ctor this p s =
     and_then (alloc_object this s) (\<lambda>s1.
     and_then (write_ptr this p s1) (\<lambda>s2.
       if p \<noteq> 0
       then (case new_ControlBlock p default_deleter s2 of (c, s3) \<Rightarrow> write_cbp this c s3)
       else Inr s2))"

text \<open>\<open>shared_ptr(T* ptr, std::function<void(T*)> deleter)\<close>, lines 116-123.\<close>

definition shared_ptr_ctor_deleter :: "nat \<Rightarrow> nat \<Rightarrow> deleter \<Rightarrow> heap \<Rightarrow> error + heap" where
  "shared_ptr_ctor_deleter this p d s =
     and_then (alloc_object this s) (\<lambda>s1.
     and_then (write_ptr this p s1) (\<lambda>s2.
       if p \<noteq> 0
       then (case new_ControlBlock p d s2 of (c, s3) \<Rightarrow> write_cbp this c s3)
       else Inr s2))"

text \<open>\<open>~shared_ptr()\<close>, lines 125-136. The second test is \<open>&&\<close>: \<open>weak_refs()\<close> is read
  only when \<open>shared_refs()\<close> is 0.\<close>

definition shared_ptr_dtor :: "nat \<Rightarrow> heap \<Rightarrow> error + heap" where
  "shared_ptr_dtor this s =
     and_then (read_cbp this s) (\<lambda>c.
     and_then
       (if c \<noteq> None
        then and_then (decrement_shared c s) (\<lambda>s1.
             and_then (get_shared_refs c s1) (\<lambda>n1.
             and_then (if n1 = 0 then call_deleter c s1 else Inr s1) (\<lambda>s2.
             and_then (get_shared_refs c s2) (\<lambda>n2.
               if n2 = 0
               then and_then (get_weak_refs c s2) (\<lambda>w.
                      if w = 0 then delete_ControlBlock c s2 else Inr s2)
               else Inr s2))))
        else Inr s)
       (free_object this))"

text \<open>\<open>shared_ptr(const shared_ptr& other)\<close>, lines 177-182. The source object has to be
  alive before the new one is created.\<close>

definition shared_ptr_copy_ctor :: "nat \<Rightarrow> nat \<Rightarrow> heap \<Rightarrow> error + heap" where
  "shared_ptr_copy_ctor this other s =
     and_then (read_ptr other s) (\<lambda>p0.
     and_then (alloc_object this s) (\<lambda>s1.
     and_then (read_ptr other s1) (\<lambda>p.
     and_then (write_ptr this p s1) (\<lambda>s2.
     and_then (read_cbp other s2) (\<lambda>c.
     and_then (write_cbp this c s2) (\<lambda>s3.
       increment_shared c s3))))))"

text \<open>The class declares no constructor from \<open>shared_ptr&&\<close>, and its user-declared copy
  constructor, assignment operators and destructor suppress the implicit one. Initialising
  a \<open>shared_ptr\<close> from an rvalue, \<open>shared_ptr<T> b(std::move(a))\<close>, therefore selects
  \<open>shared_ptr(const shared_ptr&)\<close>.\<close>

definition shared_ptr_init_from_rvalue :: "nat \<Rightarrow> nat \<Rightarrow> heap \<Rightarrow> error + heap" where
  "shared_ptr_init_from_rvalue this other s = shared_ptr_copy_ctor this other s"

text \<open>\<open>get_shared_cnt()\<close> and \<open>get_weak_cnt()\<close>, lines 138-145: no test of the pointer.\<close>

definition get_shared_cnt :: "nat \<Rightarrow> heap \<Rightarrow> error + 64 word" where
  "get_shared_cnt this s = and_then (read_cbp this s) (\<lambda>c. get_shared_refs c s)"

definition get_weak_cnt :: "nat \<Rightarrow> heap \<Rightarrow> error + 64 word" where
  "get_weak_cnt this s = and_then (read_cbp this s) (\<lambda>c. get_weak_refs c s)"

subsection \<open>Assignment\<close>

text \<open>\<open>operator=(const shared_ptr& other)\<close>, lines 147-175. Both objects have to be
  alive; the first two reads check that.\<close>

definition shared_ptr_copy_assign :: "nat \<Rightarrow> nat \<Rightarrow> heap \<Rightarrow> error + heap" where
  "shared_ptr_copy_assign this other s =
     and_then (read_cbp this s) (\<lambda>c.
     and_then (read_cbp other s) (\<lambda>c0.
       if this \<noteq> other
       then
         and_then
           (if c \<noteq> None
            then and_then (get_shared_refs c s) (\<lambda>n.
                   if n = 1
                   then and_then (call_deleter c s) (delete_ControlBlock c)
                   else Inr s)
            else Inr s) (\<lambda>s1.
         and_then (read_ptr other s1) (\<lambda>p.
         and_then (write_ptr this p s1) (\<lambda>s2.
         and_then (read_cbp other s2) (\<lambda>c'.
         and_then (write_cbp this c' s2) (\<lambda>s3.
           if c' \<noteq> None then increment_shared c' s3 else Inr s3)))))
       else Inr s))"

text \<open>\<open>operator=(shared_ptr&& other)\<close>, lines 184-204. Both objects have to be alive;
  the first two reads check that. The members of \<open>other\<close> are read after the release,
  which matters when \<open>other\<close> is \<open>*this\<close>.\<close>

definition shared_ptr_move_assign :: "nat \<Rightarrow> nat \<Rightarrow> heap \<Rightarrow> error + heap" where
  "shared_ptr_move_assign this other s =
     and_then (read_cbp this s) (\<lambda>c.
     and_then (read_cbp other s) (\<lambda>c0.
     and_then
       (if c \<noteq> None
        then and_then (call_deleter c s) (\<lambda>s1.
             and_then (delete_ControlBlock c s1) (write_cbp this None))
        else Inr s) (\<lambda>s1.
     and_then (read_ptr other s1) (\<lambda>p.
     and_then (write_ptr this p s1) (\<lambda>s2.
     and_then (read_cbp other s2) (\<lambda>c'.
     and_then (write_cbp this c' s2) (\<lambda>s3.
     and_then (write_ptr other 0 s3) (write_cbp other None))))))))"

subsection \<open>reset and the observers\<close>

text \<open>\<open>reset()\<close>, lines 222-229.\<close>

definition shared_ptr_reset :: "nat \<Rightarrow> heap \<Rightarrow> error + heap" where
  "shared_ptr_reset this s =
     and_then (read_cbp this s) (\<lambda>c.
       if c \<noteq> None
       then and_then (call_deleter c s) (\<lambda>s1.
            and_then (delete_ControlBlock c s1) (write_cbp this None))
       else Inr s)"

text \<open>\<open>reset(T* other)\<close>, lines 231-240.\<close>

definition shared_ptr_reset_ptr :: "nat \<Rightarrow> nat \<Rightarrow> heap \<Rightarrow> error + heap" where
  "shared_ptr_reset_ptr this other s =
     and_then (read_cbp this s) (\<lambda>c.
     and_then
       (if c \<noteq> None
        then and_then (call_deleter c s) (\<lambda>s1.
             and_then (delete_ControlBlock c s1) (write_cbp this None))
        else Inr s) (\<lambda>s1.
     and_then (write_ptr this other s1) (\<lambda>s2.
       case new_ControlBlock other default_deleter s2 of (c', s3) \<Rightarrow> write_cbp this c' s3)))"

text \<open>\<open>get()\<close>, \<open>operator bool()\<close>, \<open>operator==(nullptr)\<close> and \<open>use_count()\<close>, whose
  \<open>size_t\<close> count is returned as a \<open>long\<close>.\<close>

definition get :: "nat \<Rightarrow> heap \<Rightarrow> error + nat" where
  "get this s = read_ptr this s"

definition operator_bool :: "nat \<Rightarrow> heap \<Rightarrow> error + bool" where
  "operator_bool this s = and_then (read_cbp this s) (\<lambda>c. Inr (c \<noteq> None))"

definition equals_nullptr :: "nat \<Rightarrow> heap \<Rightarrow> error + bool" where
  "equals_nullptr this s = and_then (read_cbp this s) (\<lambda>c. Inr (c = None))"

definition use_count :: "nat \<Rightarrow> heap \<Rightarrow> error + int" where
  "use_count this s =
     and_then (read_cbp this s) (\<lambda>c.
       if c = None then Inr 0
       else and_then (get_shared_cnt this s) (\<lambda>n. Inr (sint n)))"

section \<open>Programs over handles\<close>

text \<open>A client program is a sequence of calls; it stops at the first undefined behaviour.\<close>

datatype call =
    Ctor nat nat                  \<comment> \<open>\<open>shared_ptr<T> this(p)\<close>\<close>
  | CtorDeleter nat nat deleter   \<comment> \<open>\<open>shared_ptr<T> this(p, d)\<close>\<close>
  | CopyCtor nat nat              \<comment> \<open>\<open>shared_ptr<T> this(other)\<close>\<close>
  | InitFromRvalue nat nat        \<comment> \<open>\<open>shared_ptr<T> this(std::move(other))\<close>\<close>
  | CopyAssign nat nat            \<comment> \<open>\<open>this = other\<close>\<close>
  | MoveAssign nat nat            \<comment> \<open>\<open>this = std::move(other)\<close>\<close>
  | Reset nat                     \<comment> \<open>\<open>this.reset()\<close>\<close>
  | ResetPtr nat nat              \<comment> \<open>\<open>this.reset(p)\<close>\<close>
  | Dtor nat                      \<comment> \<open>\<open>this\<close> goes out of scope\<close>

fun exec :: "call \<Rightarrow> heap \<Rightarrow> error + heap" where
  "exec (Ctor this p) s = shared_ptr_ctor this p s"
| "exec (CtorDeleter this p d) s = shared_ptr_ctor_deleter this p d s"
| "exec (CopyCtor this other) s = shared_ptr_copy_ctor this other s"
| "exec (InitFromRvalue this other) s = shared_ptr_init_from_rvalue this other s"
| "exec (CopyAssign this other) s = shared_ptr_copy_assign this other s"
| "exec (MoveAssign this other) s = shared_ptr_move_assign this other s"
| "exec (Reset this) s = shared_ptr_reset this s"
| "exec (ResetPtr this p) s = shared_ptr_reset_ptr this p s"
| "exec (Dtor this) s = shared_ptr_dtor this s"

fun run :: "call list \<Rightarrow> heap \<Rightarrow> error + heap" where
  "run [] s = Inr s"
| "run (c # cs) s = and_then (exec c s) (run cs)"

text \<open>Observations of the outcome of a program.\<close>

definition after :: "call list \<Rightarrow> (heap \<Rightarrow> error + 'a) \<Rightarrow> error + 'a" where
  "after cs f = and_then (run cs empty_heap) f"

definition deleter_runs :: "deleter \<Rightarrow> nat \<Rightarrow> heap \<Rightarrow> error + nat" where
  "deleter_runs d p s = Inr (count_list (deleter_calls s) (d, p))"

definition block_cell :: "nat \<Rightarrow> heap \<Rightarrow> error + ControlBlock option" where
  "block_cell a s = (if a < length (blocks s) then Inr (blocks s ! a) else Inl WildPointer)"

definition is_alive :: "nat \<Rightarrow> heap \<Rightarrow> error + bool" where
  "is_alive this s = Inr (objects s this \<noteq> None)"

section \<open>Handles used from several threads\<close>

text \<open>
  The counters are \<open>std::atomic<size_t>\<close>: every \<open>load\<close> and every \<open>exchange\<close> is one
  indivisible step, and steps of different threads interleave. A thread keeps the value it
  has loaded in a register of its own. The steps are those the source performs on a
  control block:

  \<^item> \<open>Load\<close>: \<open>shared_refs_.load()\<close>, the read in \<open>shared_refs_ + 1\<close> (line 86) and in
    \<open>shared_refs()\<close> (lines 77-79, called at lines 129 and 132);
  \<^item> \<open>ExchangeInc\<close>: \<open>shared_refs_.exchange(v + 1)\<close> for the value \<open>v\<close> loaded before
    (line 86); the value \<open>exchange\<close> returns is discarded;
  \<^item> \<open>Decrement\<close>: the whole of \<open>decrement_shared()\<close> (lines 89-93), taken as one step
    although it is two loads and an exchange; this only removes interleavings, so every
    schedule of these steps is a schedule of the code;
  \<^item> \<open>DeleterIfZero\<close>: \<open>if (... == 0) call_deleter()\<close> on the loaded value (lines 129-131);
  \<^item> \<open>DeleteIfZero\<close>: \<open>if (... == 0 && weak_refs() == 0) delete control_block_ptr\<close> on the
    loaded value (lines 132-134).
\<close>

record machine =
  mheap :: heap
  reg :: "nat \<Rightarrow> 64 word"

datatype step =
    Load nat "nat option"
  | ExchangeInc nat "nat option"
  | Decrement nat "nat option"
  | DeleterIfZero nat "nat option"
  | DeleteIfZero nat "nat option"

fun thread_of :: "step \<Rightarrow> nat" where
  "thread_of (Load t c) = t"
| "thread_of (ExchangeInc t c) = t"
| "thread_of (Decrement t c) = t"
| "thread_of (DeleterIfZero t c) = t"
| "thread_of (DeleteIfZero t c) = t"

fun step_exec :: "step \<Rightarrow> machine \<Rightarrow> error + machine" where
  "step_exec (Load t c) m =
     and_then (get_shared_refs c (mheap m)) (\<lambda>n. Inr (m\<lparr>reg := (reg m)(t := n)\<rparr>))"
| "step_exec (ExchangeInc t c) m =
     and_then (deref (mheap m) c)
       (\<lambda>(a, cb).
          Inr (m\<lparr>mheap := store_block a (cb\<lparr>shared_refs := reg m t + 1\<rparr>) (mheap m)\<rparr>))"
| "step_exec (Decrement t c) m =
     and_then (decrement_shared c (mheap m)) (\<lambda>s. Inr (m\<lparr>mheap := s\<rparr>))"
| "step_exec (DeleterIfZero t c) m =
     (if reg m t = 0
      then and_then (call_deleter c (mheap m)) (\<lambda>s. Inr (m\<lparr>mheap := s\<rparr>))
      else Inr m)"
| "step_exec (DeleteIfZero t c) m =
     (if reg m t = 0
      then and_then (get_weak_refs c (mheap m)) (\<lambda>w.
             if w = 0
             then and_then (delete_ControlBlock c (mheap m)) (\<lambda>s. Inr (m\<lparr>mheap := s\<rparr>))
             else Inr m)
      else Inr m)"

fun run_steps :: "step list \<Rightarrow> machine \<Rightarrow> error + machine" where
  "run_steps [] m = Inr m"
| "run_steps (x # xs) m = and_then (step_exec x m) (run_steps xs)"

text \<open>The steps of \<open>increment_shared()\<close>, and those of \<open>~shared_ptr()\<close> on a handle with a
  control block, for thread \<open>t\<close>.\<close>

definition increment_steps :: "nat \<Rightarrow> nat option \<Rightarrow> step list" where
  "increment_steps t c = [Load t c, ExchangeInc t c]"

definition dtor_steps :: "nat \<Rightarrow> nat option \<Rightarrow> step list" where
  "dtor_steps t c =
     [Decrement t c, Load t c, DeleterIfZero t c, Load t c, DeleteIfZero t c]"

text \<open>The steps of one thread in a schedule, in their order; and the outcome of a
  schedule run on the heap that a sequential program has built.\<close>

definition steps_of :: "nat \<Rightarrow> step list \<Rightarrow> step list" where
  "steps_of t xs = filter (\<lambda>x. thread_of x = t) xs"

definition after_schedule ::
  "call list \<Rightarrow> step list \<Rightarrow> (heap \<Rightarrow> error + 'a) \<Rightarrow> error + 'a" where
  "after_schedule cs xs f =
     and_then (run cs empty_heap) (\<lambda>s.
     and_then (run_steps xs \<lparr>mheap = s, reg = (\<lambda>t. 0)\<rparr>) (\<lambda>m. f (mheap m)))"

text \<open>Two schedules. In the first, threads 1 and 2 each increment the count of block 0,
  as two concurrent copy constructions do. In the second, threads 1 and 2 each run the
  destructor of a handle on block 0.\<close>

definition racing_increments :: "step list" where
  "racing_increments =
     [Load 1 (Some 0), Load 2 (Some 0), ExchangeInc 1 (Some 0), ExchangeInc 2 (Some 0)]"

definition racing_destructors :: "step list" where
  "racing_destructors =
     [Decrement 1 (Some 0), Decrement 2 (Some 0), Load 1 (Some 0), Load 2 (Some 0),
      DeleterIfZero 1 (Some 0), DeleterIfZero 2 (Some 0),
      Load 1 (Some 0), DeleteIfZero 1 (Some 0), Load 2 (Some 0), DeleteIfZero 2 (Some 0)]"

section \<open>Owners of a block\<close>

text \<open>The handles that reference the control block at address \<open>a\<close>.\<close>

definition owners :: "heap \<Rightarrow> nat \<Rightarrow> nat set" where
  "owners s a = {h. \<exists>sp. objects s h = Some sp \<and> control_block_ptr sp = Some a}"

text \<open>The count of a block is right: a live block has no weak references, at least one
  owner, and a \<open>shared_refs_\<close> equal to the number of its owners; a deleted block and an
  address never allocated have no owner. A heap is counted when it holds finitely many
  handles and the count of every block is right.\<close>

definition block_counted :: "heap \<Rightarrow> nat \<Rightarrow> bool" where
  "block_counted s a =
     (if a < length (blocks s)
      then (case blocks s ! a of
              Some cb \<Rightarrow> unat (shared_refs cb) = card (owners s a) \<and> owners s a \<noteq> {}
                         \<and> weak_refs cb = 0
            | None \<Rightarrow> owners s a = {})
      else owners s a = {})"

definition counted :: "heap \<Rightarrow> bool" where
  "counted s = (finite (dom (objects s)) \<and> (\<forall>a. block_counted s a))"

text \<open>A live handle that is empty, or whose block is live and has count 1.\<close>

definition unshared :: "nat \<Rightarrow> heap \<Rightarrow> bool" where
  "unshared h s =
     (case read_cbp h s of
        Inl e \<Rightarrow> False
      | Inr None \<Rightarrow> True
      | Inr (Some a) \<Rightarrow>
          (case deref s (Some a) of Inl e \<Rightarrow> False | Inr (b, cb) \<Rightarrow> shared_refs cb = 1))"

text \<open>A live handle with a control block.\<close>

definition has_block :: "nat \<Rightarrow> heap \<Rightarrow> bool" where
  "has_block h s =
     (case read_cbp h s of Inl e \<Rightarrow> False | Inr None \<Rightarrow> False | Inr (Some a) \<Rightarrow> True)"

text \<open>The calls that keep the counts right: construction in unused storage, copy
  construction from a handle that has a block, destruction of a live handle,
  self-assignment by copy, and assignment onto or reset of a handle that is unshared.
  What is left out is copy construction from an empty handle, and overwriting or
  resetting a handle whose block has other owners.\<close>

fun safe_call :: "call \<Rightarrow> heap \<Rightarrow> bool" where
  "safe_call (Ctor t p) s = (objects s t = None)"
| "safe_call (CtorDeleter t p d) s = (objects s t = None)"
| "safe_call (CopyCtor t src) s = (objects s t = None \<and> has_block src s)"
| "safe_call (InitFromRvalue t src) s = (objects s t = None \<and> has_block src s)"
| "safe_call (CopyAssign this other) s =
     (objects s other \<noteq> None \<and> (this = other \<or> unshared this s))"
| "safe_call (MoveAssign this other) s = (objects s other \<noteq> None \<and> unshared this s)"
| "safe_call (Reset this) s = unshared this s"
| "safe_call (ResetPtr this p) s = unshared this s"
| "safe_call (Dtor h) s = (objects s h \<noteq> None)"

text \<open>A program each call of which is safe in the heap it runs in. Nothing is assumed
  about the outcome of a call: after one that ends in undefined behaviour the rest of the
  program is not constrained.\<close>

fun safe_program :: "call list \<Rightarrow> heap \<Rightarrow> bool" where
  "safe_program [] s = True"
| "safe_program (c # cs) s =
     (safe_call c s \<and>
      (case exec c s of Inl e \<Rightarrow> True | Inr s' \<Rightarrow> safe_program cs s'))"


section \<open>Basic facts\<close>

lemma and_then_simps [simp]:
  "and_then (Inr x) f = f x" "and_then (Inl e) f = Inl e"
  by (simp_all add: and_then_def)

lemmas heap_defs =
  read_ptr_def read_cbp_def write_ptr_def write_cbp_def alloc_object_def free_object_def
  deref_def store_block_def new_ControlBlock_def delete_ControlBlock_def
  run_default_deleter_def invoke_def call_deleter_def get_shared_refs_def get_weak_refs_def
  increment_shared_def decrement_shared_def

lemmas shared_ptr_defs =
  shared_ptr_ctor_def shared_ptr_ctor_deleter_def shared_ptr_dtor_def
  shared_ptr_copy_ctor_def shared_ptr_init_from_rvalue_def shared_ptr_copy_assign_def
  shared_ptr_move_assign_def shared_ptr_reset_def shared_ptr_reset_ptr_def

lemmas observer_defs =
  get_def operator_bool_def equals_nullptr_def get_shared_cnt_def get_weak_cnt_def
  use_count_def after_def deleter_runs_def block_cell_def is_alive_def

lemma deref_live:
  "deref s (Some a) = Inr (b, cb) \<Longrightarrow> b = a \<and> a < length (blocks s) \<and> blocks s ! a = Some cb"
  by (auto simp add: deref_def split: if_splits option.splits)

text \<open>The heaps reached by three short programs, written out.\<close>

lemma heap_one_owner:
  "run [Ctor 1 10] empty_heap =
     Inr \<lparr>blocks = [Some \<lparr>cb_ptr = 10, shared_refs = 1, weak_refs = 0,
                           deleter_ptr = default_deleter\<rparr>],
          objects = [1 \<mapsto> \<lparr>sp_ptr = 10, control_block_ptr = Some 0\<rparr>],
          deleter_calls = [], payload_deletes = []\<rparr>"
  by (simp add: empty_heap_def shared_ptr_defs heap_defs)

lemma heap_empty_handle:
  "run [Ctor 1 0] empty_heap =
     Inr \<lparr>blocks = [],
          objects = [1 \<mapsto> \<lparr>sp_ptr = 0, control_block_ptr = None\<rparr>],
          deleter_calls = [], payload_deletes = []\<rparr>"
  by (simp add: empty_heap_def shared_ptr_defs heap_defs)

lemma heap_two_owners_and_another:
  "run [Ctor 1 10, CopyCtor 2 1, Ctor 3 30] empty_heap =
     Inr \<lparr>blocks = [Some \<lparr>cb_ptr = 10, shared_refs = 2, weak_refs = 0,
                           deleter_ptr = default_deleter\<rparr>,
                    Some \<lparr>cb_ptr = 30, shared_refs = 1, weak_refs = 0,
                           deleter_ptr = default_deleter\<rparr>],
          objects = [1 \<mapsto> \<lparr>sp_ptr = 10, control_block_ptr = Some 0\<rparr>,
                     2 \<mapsto> \<lparr>sp_ptr = 10, control_block_ptr = Some 0\<rparr>,
                     3 \<mapsto> \<lparr>sp_ptr = 30, control_block_ptr = Some 1\<rparr>],
          deleter_calls = [], payload_deletes = []\<rparr>"
  by (simp add: empty_heap_def shared_ptr_defs heap_defs)

lemma sint_count: "n < 2 ^ 63 \<Longrightarrow> sint (of_nat n :: 64 word) = int n"
  by (simp add: signed_of_nat signed_take_bit_int_eq_self)

lemma use_count_owner:
  assumes "objects s h = Some sp" "control_block_ptr sp = Some a"
    "a < length (blocks s)" "blocks s ! a = Some cb"
  shows "use_count h s = Inr (sint (shared_refs cb))"
  using assms by (simp add: use_count_def get_shared_cnt_def read_cbp_def get_shared_refs_def deref_def)

lemma ctor_fresh:
  assumes "objects s h = None" "p \<noteq> 0"
  shows "\<exists>s1 cb. shared_ptr_ctor h p s = Inr s1
      \<and> (\<exists>sp. objects s1 h = Some sp \<and> control_block_ptr sp = Some (length (blocks s)))
      \<and> length (blocks s) < length (blocks s1)
      \<and> blocks s1 ! length (blocks s) = Some cb \<and> shared_refs cb = 1
      \<and> (\<forall>u. u \<noteq> h \<longrightarrow> objects s1 u = objects s u)"
  using assms
  by (auto simp add: shared_ptr_ctor_def alloc_object_def write_ptr_def write_cbp_def
      new_ControlBlock_def)

section \<open>The shared count is the number of owners\<close>

subsection \<open>Owners under updates of the handles\<close>

lemma owners_subset: "owners s a \<subseteq> dom (objects s)"
  by (auto simp add: owners_def)

lemma owners_finite: "finite (dom (objects s)) \<Longrightarrow> finite (owners s a)"
  by (rule finite_subset[OF owners_subset])

lemma owners_card_le: "finite (dom (objects s)) \<Longrightarrow> card (owners s a) \<le> card (dom (objects s))"
  by (rule card_mono[OF _ owners_subset])

lemma counted_empty: "counted empty_heap"
  by (simp add: counted_def block_counted_def owners_def empty_heap_def)

lemma owners_put_fresh:
  assumes "objects s' = (objects s)(t \<mapsto> sp)" "objects s t = None"
  shows "owners s' a =
         (if control_block_ptr sp = Some a then insert t (owners s a) else owners s a)"
  using assms by (auto simp add: owners_def)

lemma owners_remove:
  assumes "objects s' = (objects s)(t := None)"
  shows "owners s' a = owners s a - {t}"
  using assms by (auto simp add: owners_def)

subsection \<open>Constructors and destructor\<close>

lemma ctor_explicit:
  assumes "objects s t = None"
  shows "\<exists>s'. shared_ptr_ctor_deleter t p d s = Inr s'
     \<and> objects s' = (objects s)(t \<mapsto> \<lparr>sp_ptr = p,
            control_block_ptr = (if p \<noteq> 0 then Some (length (blocks s)) else None)\<rparr>)
     \<and> blocks s' = (if p \<noteq> 0
          then blocks s @ [Some \<lparr>cb_ptr = p, shared_refs = 1, weak_refs = 0, deleter_ptr = d\<rparr>]
          else blocks s)"
  using assms by (simp add: shared_ptr_ctor_deleter_def heap_defs)

lemma ctor_is_ctor_deleter: "shared_ptr_ctor t p s = shared_ptr_ctor_deleter t p default_deleter s"
  by (simp add: shared_ptr_ctor_def shared_ptr_ctor_deleter_def)

lemma countedD: "counted s \<Longrightarrow> block_counted s a"
  by (simp add: counted_def)

lemma ctor_counted:
  assumes c: "counted s" and fresh: "objects s t = None"
  shows "\<exists>s'. shared_ptr_ctor_deleter t p d s = Inr s' \<and> counted s'
           \<and> dom (objects s') = insert t (dom (objects s))"
proof -
  let ?n = "length (blocks s)"
  from ctor_explicit[OF fresh, of p d] obtain s' where
    e: "shared_ptr_ctor_deleter t p d s = Inr s'"
    and ob: "objects s' = (objects s)(t \<mapsto> \<lparr>sp_ptr = p,
            control_block_ptr = (if p \<noteq> 0 then Some ?n else None)\<rparr>)"
    and bl: "blocks s' = (if p \<noteq> 0
          then blocks s @ [Some \<lparr>cb_ptr = p, shared_refs = 1, weak_refs = 0, deleter_ptr = d\<rparr>]
          else blocks s)"
    by blast
  have o: "owners s' a = (if p \<noteq> 0 \<and> a = ?n then insert t (owners s a) else owners s a)" for a
    using owners_put_fresh[OF ob fresh, of a] by auto
  from countedD[OF c, of ?n] have n: "owners s ?n = {}"
    by (simp add: block_counted_def)
  have "block_counted s' a" for a
  proof (cases "p \<noteq> 0 \<and> a = ?n")
    case True
    with o[of a] n bl show ?thesis by (simp add: block_counted_def)
  next
    case False
    with o[of a] bl countedD[OF c, of a] show ?thesis
      by (auto simp add: block_counted_def nth_append split: if_splits option.splits)
  qed
  moreover have "finite (dom (objects s'))" using c ob by (simp add: counted_def)
  ultimately have "counted s'" by (simp add: counted_def)
  with e ob show ?thesis by simp
qed

lemma owner_block_live:
  assumes c: "counted s" and o: "objects s h = Some sp" "control_block_ptr sp = Some a"
  shows "\<exists>cb. a < length (blocks s) \<and> blocks s ! a = Some cb
            \<and> unat (shared_refs cb) = card (owners s a) \<and> weak_refs cb = 0
            \<and> h \<in> owners s a \<and> finite (owners s a)"
proof -
  from o have h: "h \<in> owners s a" by (auto simp add: owners_def)
  from c have f: "finite (owners s a)" by (simp add: counted_def owners_finite)
  from countedD[OF c, of a] h f show ?thesis
    by (auto simp add: block_counted_def split: if_splits option.splits)
qed

lemma copy_ctor_explicit:
  assumes "objects s t = None" "objects s src = Some so" "control_block_ptr so = Some a"
    "a < length (blocks s)" "blocks s ! a = Some cb"
  shows "\<exists>s'. shared_ptr_copy_ctor t src s = Inr s'
     \<and> objects s' = (objects s)(t \<mapsto> \<lparr>sp_ptr = sp_ptr so, control_block_ptr = Some a\<rparr>)
     \<and> blocks s' = (blocks s)[a := Some (cb\<lparr>shared_refs := shared_refs cb + 1\<rparr>)]"
proof -
  from assms(1,2) have "src \<noteq> t" by auto
  with assms show ?thesis
    by (simp add: shared_ptr_copy_ctor_def heap_defs)
qed

lemma unat_incr:
  assumes "unat (x :: 64 word) < 2 ^ 63"
  shows "unat (x + 1) = Suc (unat x)"
proof -
  have "unat x + unat (1 :: 64 word) < 2 ^ LENGTH(64)" using assms by simp
  then have "unat (x + 1) = unat x + unat (1 :: 64 word)" by (simp only: unat_add_lem)
  then show ?thesis by simp
qed

lemma copy_ctor_counted:
  assumes c: "counted s" and fresh: "objects s t = None"
    and src: "objects s src = Some so" "control_block_ptr so = Some a"
    and bound: "card (dom (objects s)) < 2 ^ 63"
  shows "\<exists>s'. shared_ptr_copy_ctor t src s = Inr s' \<and> counted s'
           \<and> dom (objects s') = insert t (dom (objects s))"
proof -
  from owner_block_live[OF c src] obtain cb where
    a: "a < length (blocks s)" "blocks s ! a = Some cb"
    and n: "unat (shared_refs cb) = card (owners s a)" and w: "weak_refs cb = 0"
    and f: "finite (owners s a)"
    by blast
  from copy_ctor_explicit[OF fresh src a] obtain s' where
    e: "shared_ptr_copy_ctor t src s = Inr s'"
    and ob: "objects s' = (objects s)(t \<mapsto> \<lparr>sp_ptr = sp_ptr so, control_block_ptr = Some a\<rparr>)"
    and bl: "blocks s' = (blocks s)[a := Some (cb\<lparr>shared_refs := shared_refs cb + 1\<rparr>)]"
    by blast
  have o: "owners s' b = (if b = a then insert t (owners s a) else owners s b)" for b
    using owners_put_fresh[OF ob fresh, of b] by auto
  from fresh have tn: "t \<notin> owners s a" by (auto simp add: owners_def)
  from c have fin: "finite (dom (objects s))" by (simp add: counted_def)
  from owners_card_le[OF fin, of a] bound n have "unat (shared_refs cb) < 2 ^ 63" by simp
  from unat_incr[OF this] n have n': "unat (shared_refs cb + 1) = Suc (card (owners s a))"
    by simp
  have "block_counted s' b" for b
  proof (cases "b = a")
    case True
    with o[of b] bl a n' w f tn show ?thesis by (simp add: block_counted_def)
  next
    case False
    with o[of b] bl countedD[OF c, of b] show ?thesis
      by (auto simp add: block_counted_def split: if_splits option.splits)
  qed
  moreover have "finite (dom (objects s'))" using fin ob by simp
  ultimately have "counted s'" by (simp add: counted_def)
  with e ob show ?thesis by simp
qed

lemma dtor_explicit_empty:
  assumes "objects s h = Some sp" "control_block_ptr sp = None"
  shows "\<exists>s'. shared_ptr_dtor h s = Inr s'
     \<and> objects s' = (objects s)(h := None) \<and> blocks s' = blocks s"
  using assms by (simp add: shared_ptr_dtor_def heap_defs)

lemma dtor_explicit_last:
  assumes "objects s h = Some sp" "control_block_ptr sp = Some a"
    "a < length (blocks s)" "blocks s ! a = Some cb" "shared_refs cb = 1" "weak_refs cb = 0"
  shows "\<exists>s'. shared_ptr_dtor h s = Inr s'
     \<and> objects s' = (objects s)(h := None) \<and> blocks s' = (blocks s)[a := None]"
  using assms
  by (cases "deleter_ptr cb") (simp_all add: shared_ptr_dtor_def heap_defs)

lemma dtor_explicit_shared:
  assumes "objects s h = Some sp" "control_block_ptr sp = Some a"
    "a < length (blocks s)" "blocks s ! a = Some cb" "shared_refs cb \<noteq> 0" "shared_refs cb \<noteq> 1"
  shows "\<exists>s'. shared_ptr_dtor h s = Inr s'
     \<and> objects s' = (objects s)(h := None)
     \<and> blocks s' = (blocks s)[a := Some (cb\<lparr>shared_refs := shared_refs cb - 1\<rparr>)]"
  using assms
  by (simp add: shared_ptr_dtor_def heap_defs)

lemma owners_other:
  assumes "objects s h = Some sp" "control_block_ptr sp \<noteq> Some b"
  shows "h \<notin> owners s b"
  using assms by (auto simp add: owners_def)

lemma dtor_counted:
  assumes c: "counted s" and obj: "objects s h = Some sp"
  shows "\<exists>s'. shared_ptr_dtor h s = Inr s' \<and> counted s'
           \<and> dom (objects s') = dom (objects s) - {h}"
proof (cases "control_block_ptr sp")
  case None
  from dtor_explicit_empty[OF obj None] obtain s' where
    e: "shared_ptr_dtor h s = Inr s'"
    and ob: "objects s' = (objects s)(h := None)" and bl: "blocks s' = blocks s"
    by blast
  have o: "owners s' b = owners s b" for b
    using owners_remove[OF ob, of b] owners_other[OF obj, of b] None by simp
  have "block_counted s' b" for b
    using countedD[OF c, of b] o[of b] bl
    by (auto simp add: block_counted_def split: if_splits option.splits)
  moreover have "finite (dom (objects s'))" using c ob by (simp add: counted_def)
  ultimately have "counted s'" by (simp add: counted_def)
  with e ob show ?thesis by auto
next
  case (Some a)
  from owner_block_live[OF c obj Some] obtain cb where
    a: "a < length (blocks s)" "blocks s ! a = Some cb"
    and n: "unat (shared_refs cb) = card (owners s a)" and w: "weak_refs cb = 0"
    and h: "h \<in> owners s a" and f: "finite (owners s a)"
    by blast
  from h f have pos: "0 < card (owners s a)" by (auto simp add: card_gt_0_iff)
  with n have nz: "shared_refs cb \<noteq> 0" by (auto simp add: unat_gt_0[symmetric])
  have other: "owners s b - {h} = owners s b" if "b \<noteq> a" for b
    using owners_other[OF obj, of b] Some that by simp
  show ?thesis
  proof (cases "shared_refs cb = 1")
    case True
    from dtor_explicit_last[OF obj Some a True w] obtain s' where
      e: "shared_ptr_dtor h s = Inr s'"
      and ob: "objects s' = (objects s)(h := None)" and bl: "blocks s' = (blocks s)[a := None]"
      by blast
    from True n have "card (owners s a) = 1" by simp
    with h have "owners s a = {h}" by (auto simp add: card_1_singleton_iff)
    with owners_remove[OF ob, of a] have oa: "owners s' a = {}" by simp
    have ob': "owners s' b = owners s b" if "b \<noteq> a" for b
      using owners_remove[OF ob, of b] other[OF that] by simp
    have "block_counted s' b" for b
    proof (cases "b = a")
      case True
      with oa bl a show ?thesis by (simp add: block_counted_def)
    next
      case False
      with ob'[of b] bl countedD[OF c, of b] show ?thesis
        by (auto simp add: block_counted_def split: if_splits option.splits)
    qed
    moreover have "finite (dom (objects s'))" using c ob by (simp add: counted_def)
    ultimately have "counted s'" by (simp add: counted_def)
    with e ob show ?thesis by auto
  next
    case False
    from dtor_explicit_shared[OF obj Some a nz False] obtain s' where
      e: "shared_ptr_dtor h s = Inr s'"
      and ob: "objects s' = (objects s)(h := None)"
      and bl: "blocks s' = (blocks s)[a := Some (cb\<lparr>shared_refs := shared_refs cb - 1\<rparr>)]"
      by blast
    from False n have "card (owners s a) \<noteq> 1"
      by (auto simp add: word_unat_eq_iff)
    with pos have two: "2 \<le> card (owners s a)" by simp
    have oa: "owners s' a = owners s a - {h}" using owners_remove[OF ob, of a] .
    have ca: "card (owners s' a) = card (owners s a) - 1"
      using oa h f by simp
    have n': "unat (shared_refs cb - 1) = card (owners s' a)"
      using unat_minus_one[OF nz] n ca by simp
    from ca two have ne: "owners s' a \<noteq> {}" by auto
    have ob': "owners s' b = owners s b" if "b \<noteq> a" for b
      using owners_remove[OF ob, of b] other[OF that] by simp
    have "block_counted s' b" for b
    proof (cases "b = a")
      case True
      with n' ne w bl a show ?thesis by (simp add: block_counted_def)
    next
      case False
      with ob'[of b] bl countedD[OF c, of b] show ?thesis
        by (auto simp add: block_counted_def split: if_splits option.splits)
    qed
    moreover have "finite (dom (objects s'))" using c ob by (simp add: counted_def)
    ultimately have "counted s'" by (simp add: counted_def)
    with e ob show ?thesis by auto
  qed
qed

subsection \<open>What a handle reports in a counted heap\<close>

lemma sint_unat: "unat (x :: 64 word) < 2 ^ 63 \<Longrightarrow> sint x = int (unat x)"
  using sint_count[of "unat x"] by simp

lemma use_count_counted:
  assumes c: "counted s" and r: "read_cbp h s = Inr (Some a)"
    and bound: "card (dom (objects s)) < 2 ^ 63"
  shows "use_count h s = Inr (int (card (owners s a)))"
proof -
  from r obtain sp where o: "objects s h = Some sp" "control_block_ptr sp = Some a"
    by (auto simp add: read_cbp_def split: option.splits)
  from owner_block_live[OF c o] obtain cb where
    a: "a < length (blocks s)" "blocks s ! a = Some cb"
    and n: "unat (shared_refs cb) = card (owners s a)"
    by blast
  from c have fin: "finite (dom (objects s))" by (simp add: counted_def)
  from owners_card_le[OF fin, of a] bound n have "unat (shared_refs cb) < 2 ^ 63" by simp
  from sint_unat[OF this] use_count_owner[OF o a] n show ?thesis by simp
qed

subsection \<open>Changes of one handle that keep the counts right\<close>

lemma owners_put:
  assumes "objects s' = (objects s)(h \<mapsto> sp')"
  shows "owners s' x =
         (if control_block_ptr sp' = Some x then insert h (owners s x) else owners s x - {h})"
  using assms by (auto simp add: owners_def)

lemma countedI:
  assumes "finite (dom (objects s))" "\<And>a. block_counted s a"
  shows "counted s"
  using assms by (simp add: counted_def)

lemma counted_finite: "counted s \<Longrightarrow> finite (dom (objects s))"
  by (simp add: counted_def)

lemma move_same:
  assumes c: "counted s" and obj: "objects s h = Some sp"
    and same: "control_block_ptr sp' = control_block_ptr sp"
    and ob: "objects s' = (objects s)(h \<mapsto> sp')" and bl: "blocks s' = blocks s"
  shows "counted s'"
proof (rule countedI)
  show "finite (dom (objects s'))" using counted_finite[OF c] ob by simp
next
  fix x
  have "owners s' x = owners s x"
    using owners_put[OF ob, of x] same obj by (auto simp add: owners_def)
  with countedD[OF c, of x] bl show "block_counted s' x"
    by (auto simp add: block_counted_def split: if_splits option.splits)
qed

lemma move_drop:
  assumes c: "counted s" and obj: "objects s h = Some sp" "control_block_ptr sp = Some a"
    and blk: "blocks s ! a = Some cb" "shared_refs cb = 1"
    and none: "control_block_ptr sp' = None"
    and ob: "objects s' = (objects s)(h \<mapsto> sp')" and bl: "blocks s' = (blocks s)[a := None]"
  shows "counted s'"
proof (rule countedI)
  show "finite (dom (objects s'))" using counted_finite[OF c] ob by simp
next
  fix x
  from owner_block_live[OF c obj] blk obtain
    a: "a < length (blocks s)" and n: "card (owners s a) = 1" and h: "h \<in> owners s a"
    by auto
  from n h have sole: "owners s a = {h}" by (auto simp add: card_1_singleton_iff)
  have o: "owners s' x = owners s x - {h}" using owners_put[OF ob, of x] none by simp
  show "block_counted s' x"
  proof (cases "x = a")
    case True
    with o sole bl a show ?thesis by (simp add: block_counted_def)
  next
    case False
    with owners_other[OF obj(1), of x] obj(2) have "h \<notin> owners s x" by simp
    with o have "owners s' x = owners s x" by simp
    with False countedD[OF c, of x] bl show ?thesis
      by (auto simp add: block_counted_def split: if_splits option.splits)
  qed
qed

lemma move_attach:
  assumes c: "counted s" and obj: "objects s h = Some sp" "control_block_ptr sp = None"
    and src: "objects s src = Some so" "control_block_ptr so = Some b"
    and blk: "blocks s ! b = Some cb"
    and bound: "card (dom (objects s)) < 2 ^ 63"
    and some: "control_block_ptr sp' = Some b"
    and ob: "objects s' = (objects s)(h \<mapsto> sp')"
    and bl: "blocks s' = (blocks s)[b := Some (cb\<lparr>shared_refs := shared_refs cb + 1\<rparr>)]"
  shows "counted s'"
proof (rule countedI)
  show "finite (dom (objects s'))" using counted_finite[OF c] ob by simp
next
  fix x
  from owner_block_live[OF c src] blk obtain
    b: "b < length (blocks s)" and n: "unat (shared_refs cb) = card (owners s b)"
    and w: "weak_refs cb = 0" and f: "finite (owners s b)"
    by auto
  have hn: "h \<notin> owners s x" for x using owners_other[OF obj(1), of x] obj(2) by simp
  from owners_card_le[OF counted_finite[OF c], of b] bound n
  have "unat (shared_refs cb) < 2 ^ 63" by simp
  from unat_incr[OF this] n have n': "unat (shared_refs cb + 1) = Suc (card (owners s b))"
    by simp
  show "block_counted s' x"
  proof (cases "x = b")
    case True
    with owners_put[OF ob, of x] some have "owners s' x = insert h (owners s b)" by simp
    with True bl b n' w f hn[of b] show ?thesis by (simp add: block_counted_def)
  next
    case False
    with owners_put[OF ob, of x] some hn[of x] have "owners s' x = owners s x" by simp
    with False countedD[OF c, of x] bl show ?thesis
      by (auto simp add: block_counted_def split: if_splits option.splits)
  qed
qed

lemma move_transfer:
  assumes c: "counted s" and ne: "h \<noteq> src"
    and obj: "objects s h = Some sp" "control_block_ptr sp = None"
    and src: "objects s src = Some so" "control_block_ptr so = Some b"
    and some: "control_block_ptr sp' = Some b" and none: "control_block_ptr so' = None"
    and ob: "objects s' = (objects s)(h \<mapsto> sp', src \<mapsto> so')"
    and bl: "blocks s' = blocks s"
  shows "counted s'"
proof (rule countedI)
  show "finite (dom (objects s'))" using counted_finite[OF c] ob by simp
next
  fix x
  from owner_block_live[OF c src] obtain cb where
    b: "b < length (blocks s)" "blocks s ! b = Some cb"
    and n: "unat (shared_refs cb) = card (owners s b)"
    and w: "weak_refs cb = 0" and sb: "src \<in> owners s b" and f: "finite (owners s b)"
    by auto
  have hn: "h \<notin> owners s x" for x using owners_other[OF obj(1), of x] obj(2) by simp
  have o: "owners s' x = (if x = b then insert h (owners s b - {src}) else owners s x)"
    using ob ne obj src some none
    by (auto simp add: owners_def split: if_splits)
  show "block_counted s' x"
  proof (cases "x = b")
    case True
    from f sb have "0 < card (owners s b)" by (auto simp add: card_gt_0_iff)
    then have "card (insert h (owners s b - {src})) = card (owners s b)"
      using f sb hn[of b] by simp
    with True o b n w bl show ?thesis by (simp add: block_counted_def)
  next
    case False
    with o countedD[OF c, of x] bl show ?thesis
      by (auto simp add: block_counted_def split: if_splits option.splits)
  qed
qed

lemma move_new:
  assumes c: "counted s" and obj: "objects s h = Some sp" "control_block_ptr sp = None"
    and some: "control_block_ptr sp' = Some (length (blocks s))"
    and cb: "shared_refs cb = 1" "weak_refs cb = 0"
    and ob: "objects s' = (objects s)(h \<mapsto> sp')"
    and bl: "blocks s' = blocks s @ [Some cb]"
  shows "counted s'"
proof (rule countedI)
  show "finite (dom (objects s'))" using counted_finite[OF c] ob by simp
next
  fix x
  let ?n = "length (blocks s)"
  have hn: "h \<notin> owners s x" for x using owners_other[OF obj(1), of x] obj(2) by simp
  from countedD[OF c, of ?n] have n: "owners s ?n = {}" by (simp add: block_counted_def)
  show "block_counted s' x"
  proof (cases "x = ?n")
    case True
    with owners_put[OF ob, of x] some n have "owners s' x = {h}" by simp
    with True bl cb show ?thesis by (simp add: block_counted_def)
  next
    case False
    with owners_put[OF ob, of x] some hn[of x] have "owners s' x = owners s x" by simp
    with False countedD[OF c, of x] bl show ?thesis
      by (auto simp add: block_counted_def nth_append split: if_splits option.splits)
  qed
qed

subsection \<open>Assignment and reset of an unshared handle\<close>

lemma shared_ptr_overwrite:
  "(sp :: shared_ptr)\<lparr>sp_ptr := p, control_block_ptr := c\<rparr> =
     \<lparr>sp_ptr = p, control_block_ptr = c\<rparr>"
  "(sp :: shared_ptr)\<lparr>control_block_ptr := c\<rparr> =
     \<lparr>sp_ptr = sp_ptr sp, control_block_ptr = c\<rparr>"
  "(sp :: shared_ptr)\<lparr>sp_ptr := p\<rparr> =
     \<lparr>sp_ptr = p, control_block_ptr = control_block_ptr sp\<rparr>"
  by (cases sp; simp)+

lemma owners_log [simp]:
  "owners (s\<lparr>deleter_calls := d, payload_deletes := p\<rparr>) a = owners s a"
  by (simp add: owners_def)

lemma counted_log [simp]:
  "counted (s\<lparr>deleter_calls := d, payload_deletes := p\<rparr>) = counted s"
  by (simp add: counted_def block_counted_def cong: option.case_cong)

lemma unsharedD:
  assumes "unshared h s"
  obtains sp where "objects s h = Some sp" "control_block_ptr sp = None"
  | sp a cb where "objects s h = Some sp" "control_block_ptr sp = Some a"
      "a < length (blocks s)" "blocks s ! a = Some cb" "shared_refs cb = 1"
  using assms
  by (auto simp add: unshared_def read_cbp_def deref_def
      split: option.splits sum.splits if_splits)

text \<open>The heap after the release of a sole owner's block, with the handle emptied.\<close>

lemma released_counted:
  assumes c: "counted s" and obj: "objects s h = Some sp" "control_block_ptr sp = Some a"
    and blk: "blocks s ! a = Some cb" "shared_refs cb = 1"
  shows "counted (s\<lparr>objects := (objects s)(h \<mapsto> \<lparr>sp_ptr = v, control_block_ptr = None\<rparr>),
                   blocks := (blocks s)[a := None]\<rparr>)"
  by (rule move_drop[OF c obj blk]) simp_all

lemma copy_assign_counted:
  assumes c: "counted s" and ne: "this \<noteq> other" and u: "unshared this s"
    and src: "objects s other = Some so"
    and bound: "card (dom (objects s)) < 2 ^ 63"
  shows "\<exists>s'. shared_ptr_copy_assign this other s = Inr s' \<and> counted s'
           \<and> dom (objects s') = dom (objects s)"
  using u
proof (cases rule: unsharedD)
  case (1 sp)
  show ?thesis
  proof (cases "control_block_ptr so")
    case None
    let ?s' = "s\<lparr>objects := (objects s)(this \<mapsto> \<lparr>sp_ptr = sp_ptr so, control_block_ptr = None\<rparr>)\<rparr>"
    from 1 None ne src have e: "shared_ptr_copy_assign this other s = Inr ?s'"
      by (simp add: shared_ptr_copy_assign_def heap_defs shared_ptr_overwrite)
    have "counted ?s'" by (rule move_same[OF c 1(1)]) (simp_all add: 1)
    with e 1 show ?thesis by auto
  next
    case (Some b)
    from owner_block_live[OF c src Some] obtain cb where
      b: "b < length (blocks s)" "blocks s ! b = Some cb" by blast
    let ?s' = "s\<lparr>objects := (objects s)(this \<mapsto> \<lparr>sp_ptr = sp_ptr so, control_block_ptr = Some b\<rparr>),
                 blocks := (blocks s)[b := Some (cb\<lparr>shared_refs := shared_refs cb + 1\<rparr>)]\<rparr>"
    from 1 Some ne src b have e: "shared_ptr_copy_assign this other s = Inr ?s'"
      by (simp add: shared_ptr_copy_assign_def heap_defs shared_ptr_overwrite)
    have "counted ?s'"
      by (rule move_attach[OF c 1 src Some b(2) bound]) simp_all
    with e 1 show ?thesis by auto
  qed
next
  case (2 sp a cb)
  let ?s1 = "s\<lparr>objects := (objects s)(this \<mapsto> \<lparr>sp_ptr = sp_ptr so, control_block_ptr = None\<rparr>),
                blocks := (blocks s)[a := None]\<rparr>"
  have c1: "counted ?s1" by (rule released_counted[OF c 2(1,2,4,5)])
  have o1: "objects ?s1 this = Some \<lparr>sp_ptr = sp_ptr so, control_block_ptr = None\<rparr>" by simp
  from ne src have src1: "objects ?s1 other = Some so" by simp
  have d1: "dom (objects ?s1) = dom (objects s)" using 2(1) by auto
  show ?thesis
  proof (cases "control_block_ptr so")
    case None
    from 2 None ne src have e: "shared_ptr_copy_assign this other s =
        Inr (?s1\<lparr>deleter_calls := deleter_calls (invoke (deleter_ptr cb) (cb_ptr cb) s),
                 payload_deletes := payload_deletes (invoke (deleter_ptr cb) (cb_ptr cb) s)\<rparr>)"
      by (cases "deleter_ptr cb") (simp_all add: shared_ptr_copy_assign_def heap_defs shared_ptr_overwrite)
    have "counted (?s1\<lparr>deleter_calls := deleter_calls (invoke (deleter_ptr cb) (cb_ptr cb) s),
                 payload_deletes := payload_deletes (invoke (deleter_ptr cb) (cb_ptr cb) s)\<rparr>)"
      using c1 by simp
    with e d1 show ?thesis by auto
  next
    case (Some b)
    from owner_block_live[OF c1 src1 Some] obtain cb' where
      b: "b < length (blocks ?s1)" "blocks ?s1 ! b = Some cb'" by blast
    then have ba: "b \<noteq> a" using 2(3) by auto
    let ?s' = "?s1\<lparr>objects := (objects ?s1)(this \<mapsto> \<lparr>sp_ptr = sp_ptr so, control_block_ptr = Some b\<rparr>),
                 blocks := (blocks ?s1)[b := Some (cb'\<lparr>shared_refs := shared_refs cb' + 1\<rparr>)]\<rparr>"
    from d1 bound have b1: "card (dom (objects ?s1)) < 2 ^ 63" by (simp only:)
    have c': "counted ?s'"
      by (rule move_attach[OF c1 o1 _ src1 Some b(2) b1]) simp_all
    from 2 Some ne src b ba have e: "shared_ptr_copy_assign this other s =
        Inr (?s'\<lparr>deleter_calls := deleter_calls (invoke (deleter_ptr cb) (cb_ptr cb) s),
                 payload_deletes := payload_deletes (invoke (deleter_ptr cb) (cb_ptr cb) s)\<rparr>)"
      by (cases "deleter_ptr cb") (simp_all add: shared_ptr_copy_assign_def heap_defs shared_ptr_overwrite list_update_swap)
    have "counted (?s'\<lparr>deleter_calls := deleter_calls (invoke (deleter_ptr cb) (cb_ptr cb) s),
                 payload_deletes := payload_deletes (invoke (deleter_ptr cb) (cb_ptr cb) s)\<rparr>)"
      using c' by simp
    with e d1 show ?thesis by auto
  qed
qed

text \<open>An empty handle takes over the two pointers of another handle, which is emptied.\<close>

lemma adopt_counted:
  assumes c: "counted s" and ne: "h \<noteq> src"
    and obj: "objects s h = Some sp" "control_block_ptr sp = None"
    and src: "objects s src = Some so"
  shows "counted (s\<lparr>objects := (objects s)
            (h \<mapsto> \<lparr>sp_ptr = sp_ptr so, control_block_ptr = control_block_ptr so\<rparr>,
             src \<mapsto> \<lparr>sp_ptr = 0, control_block_ptr = None\<rparr>)\<rparr>)"
proof (cases "control_block_ptr so")
  case None
  let ?s1 = "s\<lparr>objects := (objects s)(h \<mapsto> \<lparr>sp_ptr = sp_ptr so, control_block_ptr = None\<rparr>)\<rparr>"
  have c1: "counted ?s1" by (rule move_same[OF c obj(1)]) (simp_all add: obj)
  from ne src have src1: "objects ?s1 src = Some so" by simp
  have "counted (?s1\<lparr>objects := (objects ?s1)(src \<mapsto> \<lparr>sp_ptr = 0, control_block_ptr = None\<rparr>)\<rparr>)"
    by (rule move_same[OF c1 src1]) (simp_all add: None)
  with None show ?thesis by simp
next
  case (Some b)
  show ?thesis
    by (rule move_transfer[OF c ne obj src Some]) (simp_all add: Some)
qed

lemma move_assign_counted:
  assumes c: "counted s" and ne: "this \<noteq> other" and u: "unshared this s"
    and src: "objects s other = Some so"
  shows "\<exists>s'. shared_ptr_move_assign this other s = Inr s' \<and> counted s'
           \<and> dom (objects s') = dom (objects s)"
  using u
proof (cases rule: unsharedD)
  case (1 sp)
  let ?s' = "s\<lparr>objects := (objects s)
            (this \<mapsto> \<lparr>sp_ptr = sp_ptr so, control_block_ptr = control_block_ptr so\<rparr>,
             other \<mapsto> \<lparr>sp_ptr = 0, control_block_ptr = None\<rparr>)\<rparr>"
  from 1 ne src have e: "shared_ptr_move_assign this other s = Inr ?s'"
    by (simp add: shared_ptr_move_assign_def heap_defs shared_ptr_overwrite)
  have "counted ?s'" by (rule adopt_counted[OF c ne 1 src])
  with e 1 src show ?thesis by auto
next
  case (2 sp a cb)
  let ?s1 = "s\<lparr>objects := (objects s)(this \<mapsto> \<lparr>sp_ptr = sp_ptr sp, control_block_ptr = None\<rparr>),
                blocks := (blocks s)[a := None]\<rparr>"
  have c1: "counted ?s1" by (rule released_counted[OF c 2(1,2,4,5)])
  have o1: "objects ?s1 this = Some \<lparr>sp_ptr = sp_ptr sp, control_block_ptr = None\<rparr>" by simp
  from ne src have src1: "objects ?s1 other = Some so" by simp
  let ?s2 = "?s1\<lparr>objects := (objects ?s1)
            (this \<mapsto> \<lparr>sp_ptr = sp_ptr so, control_block_ptr = control_block_ptr so\<rparr>,
             other \<mapsto> \<lparr>sp_ptr = 0, control_block_ptr = None\<rparr>)\<rparr>"
  have c2: "counted ?s2" by (rule adopt_counted[OF c1 ne o1 _ src1]) simp
  from 2 ne src have e: "shared_ptr_move_assign this other s =
        Inr (?s2\<lparr>deleter_calls := deleter_calls (invoke (deleter_ptr cb) (cb_ptr cb) s),
                 payload_deletes := payload_deletes (invoke (deleter_ptr cb) (cb_ptr cb) s)\<rparr>)"
    by (cases "deleter_ptr cb")
       (simp_all add: shared_ptr_move_assign_def heap_defs shared_ptr_overwrite)
  have "counted (?s2\<lparr>deleter_calls := deleter_calls (invoke (deleter_ptr cb) (cb_ptr cb) s),
                 payload_deletes := payload_deletes (invoke (deleter_ptr cb) (cb_ptr cb) s)\<rparr>)"
    using c2 by simp
  with e 2(1) src show ?thesis by auto
qed

lemma self_move_assign_counted:
  assumes c: "counted s" and u: "unshared this s"
  shows "\<exists>s'. shared_ptr_move_assign this this s = Inr s' \<and> counted s'
           \<and> dom (objects s') = dom (objects s)"
  using u
proof (cases rule: unsharedD)
  case (1 sp)
  let ?s' = "s\<lparr>objects := (objects s)(this \<mapsto> \<lparr>sp_ptr = 0, control_block_ptr = None\<rparr>)\<rparr>"
  from 1 have e: "shared_ptr_move_assign this this s = Inr ?s'"
    by (simp add: shared_ptr_move_assign_def heap_defs shared_ptr_overwrite)
  have "counted ?s'" by (rule move_same[OF c 1(1)]) (simp_all add: 1)
  with e 1 show ?thesis by auto
next
  case (2 sp a cb)
  let ?s1 = "s\<lparr>objects := (objects s)(this \<mapsto> \<lparr>sp_ptr = 0, control_block_ptr = None\<rparr>),
                blocks := (blocks s)[a := None]\<rparr>"
  have c1: "counted ?s1" by (rule released_counted[OF c 2(1,2,4,5)])
  from 2 have e: "shared_ptr_move_assign this this s =
        Inr (?s1\<lparr>deleter_calls := deleter_calls (invoke (deleter_ptr cb) (cb_ptr cb) s),
                 payload_deletes := payload_deletes (invoke (deleter_ptr cb) (cb_ptr cb) s)\<rparr>)"
    by (cases "deleter_ptr cb")
       (simp_all add: shared_ptr_move_assign_def heap_defs shared_ptr_overwrite)
  have "counted (?s1\<lparr>deleter_calls := deleter_calls (invoke (deleter_ptr cb) (cb_ptr cb) s),
                 payload_deletes := payload_deletes (invoke (deleter_ptr cb) (cb_ptr cb) s)\<rparr>)"
    using c1 by simp
  with e 2(1) show ?thesis by auto
qed

lemma reset_counted:
  assumes c: "counted s" and u: "unshared this s"
  shows "\<exists>s'. shared_ptr_reset this s = Inr s' \<and> counted s'
           \<and> dom (objects s') = dom (objects s)"
  using u
proof (cases rule: unsharedD)
  case (1 sp)
  then have "shared_ptr_reset this s = Inr s"
    by (simp add: shared_ptr_reset_def heap_defs)
  with c show ?thesis by simp
next
  case (2 sp a cb)
  let ?s1 = "s\<lparr>objects := (objects s)(this \<mapsto> \<lparr>sp_ptr = sp_ptr sp, control_block_ptr = None\<rparr>),
                blocks := (blocks s)[a := None]\<rparr>"
  have c1: "counted ?s1" by (rule released_counted[OF c 2(1,2,4,5)])
  from 2 have e: "shared_ptr_reset this s =
        Inr (?s1\<lparr>deleter_calls := deleter_calls (invoke (deleter_ptr cb) (cb_ptr cb) s),
                 payload_deletes := payload_deletes (invoke (deleter_ptr cb) (cb_ptr cb) s)\<rparr>)"
    by (cases "deleter_ptr cb")
       (simp_all add: shared_ptr_reset_def heap_defs shared_ptr_overwrite)
  have "counted (?s1\<lparr>deleter_calls := deleter_calls (invoke (deleter_ptr cb) (cb_ptr cb) s),
                 payload_deletes := payload_deletes (invoke (deleter_ptr cb) (cb_ptr cb) s)\<rparr>)"
    using c1 by simp
  with e 2(1) show ?thesis by auto
qed

lemma reset_ptr_counted:
  assumes c: "counted s" and u: "unshared this s"
  shows "\<exists>s'. shared_ptr_reset_ptr this p s = Inr s' \<and> counted s'
           \<and> dom (objects s') = dom (objects s)"
  using u
proof (cases rule: unsharedD)
  case (1 sp)
  let ?cb = "\<lparr>cb_ptr = p, shared_refs = 1, weak_refs = 0, deleter_ptr = default_deleter\<rparr>"
  let ?s' = "s\<lparr>objects := (objects s)(this \<mapsto> \<lparr>sp_ptr = p, control_block_ptr = Some (length (blocks s))\<rparr>),
                blocks := blocks s @ [Some ?cb]\<rparr>"
  from 1 have e: "shared_ptr_reset_ptr this p s = Inr ?s'"
    by (simp add: shared_ptr_reset_ptr_def heap_defs shared_ptr_overwrite)
  have "counted ?s'" by (rule move_new[OF c 1, where cb = ?cb]) simp_all
  with e 1 show ?thesis by auto
next
  case (2 sp a cb)
  let ?cb = "\<lparr>cb_ptr = p, shared_refs = 1, weak_refs = 0, deleter_ptr = default_deleter\<rparr>"
  let ?s1 = "s\<lparr>objects := (objects s)(this \<mapsto> \<lparr>sp_ptr = sp_ptr sp, control_block_ptr = None\<rparr>),
                blocks := (blocks s)[a := None]\<rparr>"
  have c1: "counted ?s1" by (rule released_counted[OF c 2(1,2,4,5)])
  have o1: "objects ?s1 this = Some \<lparr>sp_ptr = sp_ptr sp, control_block_ptr = None\<rparr>" by simp
  let ?s2 = "?s1\<lparr>objects := (objects ?s1)(this \<mapsto> \<lparr>sp_ptr = p, control_block_ptr = Some (length (blocks ?s1))\<rparr>),
                blocks := blocks ?s1 @ [Some ?cb]\<rparr>"
  have c2: "counted ?s2" by (rule move_new[OF c1 o1, where cb = ?cb]) simp_all
  from 2 have e: "shared_ptr_reset_ptr this p s =
        Inr (?s2\<lparr>deleter_calls := deleter_calls (invoke (deleter_ptr cb) (cb_ptr cb) s),
                 payload_deletes := payload_deletes (invoke (deleter_ptr cb) (cb_ptr cb) s)\<rparr>)"
    by (cases "deleter_ptr cb")
       (simp_all add: shared_ptr_reset_ptr_def heap_defs shared_ptr_overwrite)
  have "counted (?s2\<lparr>deleter_calls := deleter_calls (invoke (deleter_ptr cb) (cb_ptr cb) s),
                 payload_deletes := payload_deletes (invoke (deleter_ptr cb) (cb_ptr cb) s)\<rparr>)"
    using c2 by simp
  with e 2(1) show ?thesis by auto
qed

subsection \<open>Safe programs\<close>

lemma has_blockD:
  assumes "has_block h s"
  obtains sp a where "objects s h = Some sp" "control_block_ptr sp = Some a"
  using assms
  by (auto simp add: has_block_def read_cbp_def split: option.splits sum.splits)

lemma exec_counted:
  assumes c: "counted s" and l: "safe_call k s"
    and bound: "card (dom (objects s)) < 2 ^ 63"
  shows "\<exists>s'. exec k s = Inr s' \<and> counted s'
           \<and> card (dom (objects s')) \<le> Suc (card (dom (objects s)))"
proof -
  from c have fin: "finite (dom (objects s))" by (simp add: counted_def)
  have grow: "card (insert t (dom (objects s))) \<le> Suc (card (dom (objects s)))" for t
    using fin by (simp add: card_insert_if)
  show ?thesis
  proof (cases k)
    case (Ctor t p)
    with l have "objects s t = None" by simp
    from ctor_counted[OF c this, of p default_deleter] Ctor grow[of t] show ?thesis
      by (auto simp add: ctor_is_ctor_deleter)
  next
    case (CtorDeleter t p d)
    with l have "objects s t = None" by simp
    from ctor_counted[OF c this, of p d] CtorDeleter grow[of t] show ?thesis
      by auto
  next
    case (CopyCtor t src)
    with l have f: "objects s t = None" and hb: "has_block src s" by simp_all
    from hb obtain so a where "objects s src = Some so" "control_block_ptr so = Some a"
      by (rule has_blockD)
    from copy_ctor_counted[OF c f this bound] CopyCtor grow[of t] show ?thesis
      by auto
  next
    case (InitFromRvalue t src)
    with l have f: "objects s t = None" and hb: "has_block src s" by simp_all
    from hb obtain so a where "objects s src = Some so" "control_block_ptr so = Some a"
      by (rule has_blockD)
    from copy_ctor_counted[OF c f this bound] InitFromRvalue grow[of t] show ?thesis
      by (auto simp add: shared_ptr_init_from_rvalue_def)
  next
    case (CopyAssign this other)
    with l obtain so where src: "objects s other = Some so"
      and u: "this = other \<or> unshared this s" by auto
    show ?thesis
    proof (cases "this = other")
      case True
      with src have "shared_ptr_copy_assign this other s = Inr s"
        by (simp add: shared_ptr_copy_assign_def read_cbp_def)
      with c CopyAssign show ?thesis by simp
    next
      case False
      with u have "unshared this s" by simp
      from copy_assign_counted[OF c False this src bound] CopyAssign show ?thesis
        by auto
    qed
  next
    case (MoveAssign this other)
    with l obtain so where src: "objects s other = Some so"
      and u: "unshared this s" by auto
    show ?thesis
    proof (cases "this = other")
      case True
      with self_move_assign_counted[OF c u] MoveAssign show ?thesis by auto
    next
      case False
      from move_assign_counted[OF c False u src] MoveAssign show ?thesis by auto
    qed
  next
    case (Reset this)
    with l have "unshared this s" by simp
    from reset_counted[OF c this] Reset show ?thesis by auto
  next
    case (ResetPtr this p)
    with l have "unshared this s" by simp
    from reset_ptr_counted[OF c this, of p] ResetPtr show ?thesis by auto
  next
    case (Dtor h)
    with l obtain sp where "objects s h = Some sp" by auto
    from dtor_counted[OF c this] obtain s' where
      "shared_ptr_dtor h s = Inr s'" "counted s'" "dom (objects s') = dom (objects s) - {h}"
      by blast
    moreover have "card (dom (objects s) - {h}) \<le> card (dom (objects s))"
      by (rule card_mono[OF fin]) auto
    ultimately show ?thesis using Dtor by auto
  qed
qed

lemma run_counted:
  assumes "counted s" "safe_program cs s" "card (dom (objects s)) + length cs < 2 ^ 63"
  shows "\<exists>s'. run cs s = Inr s' \<and> counted s'
           \<and> card (dom (objects s')) \<le> card (dom (objects s)) + length cs"
  using assms
proof (induction cs arbitrary: s)
  case Nil
  then show ?case by simp
next
  case (Cons k cs)
  from Cons.prems have l: "safe_call k s" and b: "card (dom (objects s)) < 2 ^ 63"
    by simp_all
  from exec_counted[OF Cons.prems(1) l b] obtain s1 where
    e: "exec k s = Inr s1" and c1: "counted s1"
    and d1: "card (dom (objects s1)) \<le> Suc (card (dom (objects s)))"
    by blast
  from Cons.prems(2) e have l1: "safe_program cs s1" by simp
  from d1 Cons.prems(3) have b1: "card (dom (objects s1)) + length cs < 2 ^ 63" by simp
  from Cons.IH[OF c1 l1 b1] obtain s' where
    "run cs s1 = Inr s'" "counted s'" "card (dom (objects s')) \<le> card (dom (objects s1)) + length cs"
    by blast
  with e d1 show ?case by auto
qed

text \<open>
  \<open>use_count()\<close> is 0 for a handle without a control block and otherwise the
  \<open>shared_refs_\<close> of its control block, read as a \<open>long\<close>. A handle freshly constructed over
  a non-null payload reports 1. In every heap reached from the empty heap by a program of
  safe calls (fewer than \<open>2^63\<close> of them, the range of \<open>long\<close>), the program has run without
  undefined behaviour and every handle that has a control block reports the number of
  handles that reference that block: when N handles share it, each of the N reports N.
\<close>

lemma safe_programs_count_owners:
  assumes safe: "safe_program cs empty_heap" and len: "length cs < 2 ^ 63"
  shows "(\<forall>s h. read_cbp h s = Inr None \<longrightarrow> use_count h s = Inr 0)
       \<and> (\<forall>s h a cb. read_cbp h s = Inr (Some a) \<and> deref s (Some a) = Inr (a, cb)
             \<longrightarrow> use_count h s = Inr (sint (shared_refs cb)))
       \<and> (\<forall>s h p. objects s h = None \<and> p \<noteq> 0
             \<longrightarrow> (\<exists>s1. shared_ptr_ctor h p s = Inr s1 \<and> use_count h s1 = Inr 1))
       \<and> (\<exists>s'. run cs empty_heap = Inr s'
             \<and> (\<forall>h a. read_cbp h s' = Inr (Some a)
                   \<longrightarrow> use_count h s' = Inr (int (card (owners s' a)))))"
proof (intro conjI)
  show "\<forall>s h. read_cbp h s = Inr None \<longrightarrow> use_count h s = Inr 0"
    by (simp add: use_count_def)
  show "\<forall>s h a cb. read_cbp h s = Inr (Some a) \<and> deref s (Some a) = Inr (a, cb)
             \<longrightarrow> use_count h s = Inr (sint (shared_refs cb))"
    by (simp add: use_count_def get_shared_cnt_def get_shared_refs_def)
  show "\<forall>s h p. objects s h = None \<and> p \<noteq> 0
             \<longrightarrow> (\<exists>s1. shared_ptr_ctor h p s = Inr s1 \<and> use_count h s1 = Inr 1)"
  proof (intro allI impI)
    fix s :: heap and h p :: nat
    assume a: "objects s h = None \<and> p \<noteq> 0"
    then have "objects s h = None" "p \<noteq> 0" by simp_all
    from ctor_fresh[OF this] obtain s1 cb sp where
      s1: "shared_ptr_ctor h p s = Inr s1"
      and sp: "objects s1 h = Some sp" "control_block_ptr sp = Some (length (blocks s))"
      and lt: "length (blocks s) < length (blocks s1)"
      and blk: "blocks s1 ! length (blocks s) = Some cb" and one: "shared_refs cb = 1"
      by blast
    from use_count_owner[OF sp lt blk] one have "use_count h s1 = Inr 1" by simp
    with s1 show "\<exists>s1. shared_ptr_ctor h p s = Inr s1 \<and> use_count h s1 = Inr 1" by blast
  qed
  have "card (dom (objects empty_heap)) + length cs < 2 ^ 63"
    using len by (simp add: empty_heap_def)
  from run_counted[OF counted_empty safe this] obtain s' where
    r: "run cs empty_heap = Inr s'" and c: "counted s'"
    and d: "card (dom (objects s')) \<le> card (dom (objects empty_heap)) + length cs"
    by blast
  from d len have b: "card (dom (objects s')) < 2 ^ 63" by (simp add: empty_heap_def)
  have "\<forall>h a. read_cbp h s' = Inr (Some a)
                   \<longrightarrow> use_count h s' = Inr (int (card (owners s' a)))"
    using use_count_counted[OF c _ b] by blast
  with r show "\<exists>s'. run cs empty_heap = Inr s'
             \<and> (\<forall>h a. read_cbp h s' = Inr (Some a)
                   \<longrightarrow> use_count h s' = Inr (int (card (owners s' a))))"
    by blast
qed

lemma heap_three_owners:
  "run [Ctor 1 10, CopyCtor 2 1, Ctor 4 0, CopyAssign 4 2] empty_heap =
     Inr \<lparr>blocks = [Some \<lparr>cb_ptr = 10, shared_refs = 3, weak_refs = 0,
                           deleter_ptr = default_deleter\<rparr>],
          objects = [1 \<mapsto> \<lparr>sp_ptr = 10, control_block_ptr = Some 0\<rparr>,
                     2 \<mapsto> \<lparr>sp_ptr = 10, control_block_ptr = Some 0\<rparr>,
                     4 \<mapsto> \<lparr>sp_ptr = 10, control_block_ptr = Some 0\<rparr>],
          deleter_calls = [], payload_deletes = []\<rparr>"
  by (simp add: empty_heap_def shared_ptr_defs heap_defs shared_ptr_overwrite)

lemma safe_programs_count_owners_example:
  "after [Ctor 1 10] (use_count 1) = Inr 1
   \<and> after [Ctor 1 10, CopyCtor 2 1, Ctor 4 0, CopyAssign 4 2] (use_count 1) = Inr 3
   \<and> after [Ctor 1 10, CopyCtor 2 1, Ctor 4 0, CopyAssign 4 2] (use_count 2) = Inr 3
   \<and> after [Ctor 1 10, CopyCtor 2 1, Ctor 4 0, CopyAssign 4 2] (use_count 4) = Inr 3"
proof -
  let ?cs = "[Ctor 1 10, CopyCtor 2 1, Ctor 4 0, CopyAssign 4 2]"
  let ?s = "\<lparr>blocks = [Some \<lparr>cb_ptr = 10, shared_refs = 3, weak_refs = 0,
                           deleter_ptr = default_deleter\<rparr>],
          objects = [1 \<mapsto> \<lparr>sp_ptr = 10, control_block_ptr = Some 0\<rparr>,
                     2 \<mapsto> \<lparr>sp_ptr = 10, control_block_ptr = Some 0\<rparr>,
                     4 \<mapsto> \<lparr>sp_ptr = 10, control_block_ptr = Some 0\<rparr>],
          deleter_calls = [], payload_deletes = []\<rparr>"
  have safe: "safe_program ?cs empty_heap"
    by (simp add: empty_heap_def shared_ptr_defs heap_defs shared_ptr_overwrite
          has_block_def unshared_def)
  have len: "length ?cs < 2 ^ 63" by simp
  from safe_programs_count_owners[OF safe len] heap_three_owners
  have all: "\<forall>h a. read_cbp h ?s = Inr (Some a)
                   \<longrightarrow> use_count h ?s = Inr (int (card (owners ?s a)))"
    and fresh: "\<forall>s h p. objects s h = None \<and> p \<noteq> 0
             \<longrightarrow> (\<exists>s1. shared_ptr_ctor h p s = Inr s1 \<and> use_count h s1 = Inr 1)"
    by auto
  have "owners ?s 0 = {1, 2, 4}"
    by (auto simp add: owners_def split: if_splits)
  then have three: "card (owners ?s 0) = 3" by simp
  from all three have "use_count 1 ?s = Inr 3" "use_count 2 ?s = Inr 3" "use_count 4 ?s = Inr 3"
    by (simp_all add: read_cbp_def)
  moreover from fresh have "\<exists>s1. shared_ptr_ctor 1 10 empty_heap = Inr s1 \<and> use_count 1 s1 = Inr 1"
    by (simp add: empty_heap_def)
  ultimately show ?thesis
    using heap_three_owners by (auto simp add: after_def)
qed


text \<open>
  C7. When N copies of one handle exist together, every copy has to report
  \<open>use_count() == N\<close>. Handles 1, 2 and 3 share the block of payload 10 and handle 3 is then
  overwritten by copy assignment from handle 4: the assignment does not decrement the old
  block, so handles 1 and 2 are the two handles left on that block (3 and 4 are on the
  block of payload 40) and each of them reports 3.
\<close>

theorem overwritten_copy_still_counted:
  "after [Ctor 1 10, CopyCtor 2 1, CopyCtor 3 1, Ctor 4 40] (use_count 1) = Inr 3
   \<and> after [Ctor 1 10, CopyCtor 2 1, CopyCtor 3 1, Ctor 4 40, CopyAssign 3 4]
       (read_cbp 1) = Inr (Some 0)
   \<and> after [Ctor 1 10, CopyCtor 2 1, CopyCtor 3 1, Ctor 4 40, CopyAssign 3 4]
       (read_cbp 2) = Inr (Some 0)
   \<and> after [Ctor 1 10, CopyCtor 2 1, CopyCtor 3 1, Ctor 4 40, CopyAssign 3 4]
       (read_cbp 3) = Inr (Some 1)
   \<and> after [Ctor 1 10, CopyCtor 2 1, CopyCtor 3 1, Ctor 4 40, CopyAssign 3 4]
       (read_cbp 4) = Inr (Some 1)
   \<and> after [Ctor 1 10, CopyCtor 2 1, CopyCtor 3 1, Ctor 4 40, CopyAssign 3 4]
       (use_count 1) = Inr 3
   \<and> after [Ctor 1 10, CopyCtor 2 1, CopyCtor 3 1, Ctor 4 40, CopyAssign 3 4]
       (use_count 2) = Inr 3
   \<and> after [Ctor 1 10, CopyCtor 2 1, CopyCtor 3 1, Ctor 4 40, CopyAssign 3 4]
       (use_count 3) = Inr 2
   \<and> after [Ctor 1 10, CopyCtor 2 1, CopyCtor 3 1, Ctor 4 40, CopyAssign 3 4]
       (use_count 4) = Inr 2"
  by (simp add: observer_defs empty_heap_def shared_ptr_defs heap_defs)

section \<open>Self-assignment\<close>

text \<open>
  C8. Copy-assigning a handle to itself, \<open>h = h\<close>, is recognised by the identity of the
  object and does nothing: the heap afterwards is the heap before, so \<open>use_count()\<close> and
  \<open>get()\<close> are unchanged, no counter is written and no deleter runs.
\<close>

theorem self_assign_noop:
  assumes "objects s h = Some sp"
  shows "shared_ptr_copy_assign h h s = Inr s"
  using assms by (simp add: shared_ptr_copy_assign_def read_cbp_def)

theorem self_assign_noop_witness:
  "after [Ctor 1 10, CopyCtor 2 1, Ctor 3 30] (shared_ptr_copy_assign 2 2) =
   run [Ctor 1 10, CopyCtor 2 1, Ctor 3 30] empty_heap"
  unfolding after_def heap_two_owners_and_another and_then_simps
  by (rule self_assign_noop [where sp = "\<lparr>sp_ptr = 10, control_block_ptr = Some 0\<rparr>"]) simp

section \<open>Copy construction from an empty handle\<close>

text \<open>
  C3. Copy-constructing from an empty handle is required to give an empty handle without
  touching a control block. The copy constructor calls \<open>increment_shared\<close> through the
  copied \<open>control_block_ptr\<close> without testing it: for every empty source the call goes
  through a null pointer.
\<close>

theorem copy_ctor_of_empty_derefs_null:
  assumes "objects s other = Some so" "control_block_ptr so = None" "objects s this = None"
  shows "shared_ptr_copy_ctor this other s = Inl NullDeref"
  using assms by (auto simp add: shared_ptr_copy_ctor_def heap_defs)

theorem copy_ctor_of_empty_derefs_null_witness:
  "after [Ctor 1 0] (shared_ptr_copy_ctor 2 1) = Inl NullDeref"
  unfolding after_def heap_empty_handle and_then_simps
  by (rule copy_ctor_of_empty_derefs_null
        [where so = "\<lparr>sp_ptr = 0, control_block_ptr = None\<rparr>"]) simp_all

section \<open>Release of an overwritten handle\<close>

text \<open>The destructor of the only owner of a live block with no weak references: the
  deleter is called once, on the payload of the block, and the block is deleted.\<close>

lemma sole_owner_dtor_releases:
  assumes "objects s h = Some sp" "control_block_ptr sp = Some a"
    "deref s (Some a) = Inr (a, cb)" "shared_refs cb = 1" "weak_refs cb = 0"
  shows "\<exists>s'. shared_ptr_dtor h s = Inr s'
      \<and> deleter_calls s' = deleter_calls s @ [(deleter_ptr cb, cb_ptr cb)]
      \<and> block_cell a s' = Inr None \<and> is_alive h s' = Inr False"
proof -
  from deref_live[OF assms(3)] have a: "a < length (blocks s)" "blocks s ! a = Some cb"
    by simp_all
  with assms(1,2,4,5) show ?thesis
    by (cases "deleter_ptr cb") (simp_all add: shared_ptr_dtor_def observer_defs heap_defs)
qed

text \<open>
  C1. After the last handle of a control block is gone, its deleter has to have run exactly
  once. Handle 2 is a copy of handle 1 and is then overwritten by copy assignment from
  handle 3; the assignment neither releases nor decrements the block of payload 10, so when
  all three handles have been destroyed that block still stands with count 1 and its
  deleter has run zero times, while the deleter of payload 30 has run once.
\<close>

theorem overwritten_copy_never_released:
  "after [Ctor 1 10, CopyCtor 2 1, Ctor 3 30, CopyAssign 2 3, Dtor 2, Dtor 3, Dtor 1]
     (is_alive 1) = Inr False
   \<and> after [Ctor 1 10, CopyCtor 2 1, Ctor 3 30, CopyAssign 2 3, Dtor 2, Dtor 3, Dtor 1]
     (is_alive 2) = Inr False
   \<and> after [Ctor 1 10, CopyCtor 2 1, Ctor 3 30, CopyAssign 2 3, Dtor 2, Dtor 3, Dtor 1]
     (is_alive 3) = Inr False
   \<and> after [Ctor 1 10, CopyCtor 2 1, Ctor 3 30, CopyAssign 2 3, Dtor 2, Dtor 3, Dtor 1]
     (deleter_runs default_deleter 10) = Inr 0
   \<and> after [Ctor 1 10, CopyCtor 2 1, Ctor 3 30, CopyAssign 2 3, Dtor 2, Dtor 3, Dtor 1]
     (deleter_runs default_deleter 30) = Inr 1
   \<and> after [Ctor 1 10, CopyCtor 2 1, Ctor 3 30, CopyAssign 2 3, Dtor 2, Dtor 3, Dtor 1]
     (block_cell 0) =
       Inr (Some \<lparr>cb_ptr = 10, shared_refs = 1, weak_refs = 0,
                  deleter_ptr = default_deleter\<rparr>)"
  by (simp add: observer_defs empty_heap_def shared_ptr_defs heap_defs)

section \<open>Moving\<close>

text \<open>What move assignment does when the destination is empty or owns a live block other
  than the source's: the destination takes over the source's two pointers, the source's
  block is not written, and the source is left empty.\<close>

lemma move_assign_transfers:
  assumes ne: "this \<noteq> other"
    and dst: "objects s this = Some sp"
    and dstok: "control_block_ptr sp = None
                \<or> (\<exists>a cb. deref s (control_block_ptr sp) = Inr (a, cb) \<and> a \<noteq> b)"
    and src: "objects s other = Some so" "control_block_ptr so = Some b"
    and blk: "deref s (Some b) = Inr (b, cb')"
  shows "\<exists>s'. shared_ptr_move_assign this other s = Inr s'
      \<and> get this s' = Inr (sp_ptr so) \<and> read_cbp this s' = Inr (Some b)
      \<and> use_count this s' = use_count other s
      \<and> deref s' (Some b) = Inr (b, cb')
      \<and> operator_bool other s' = Inr False \<and> get other s' = Inr 0
      \<and> use_count other s' = Inr 0"
proof -
  from deref_live[OF blk] have b: "b < length (blocks s)" "blocks s ! b = Some cb'"
    by simp_all
  show ?thesis
  proof (cases "control_block_ptr sp")
    case None
    with ne dst src b show ?thesis
      by (simp add: shared_ptr_move_assign_def observer_defs heap_defs)
  next
    case (Some a)
    with dstok obtain cb where d: "deref s (Some a) = Inr (a, cb)" and ab: "a \<noteq> b"
      by (auto dest: deref_live)
    from deref_live[OF d] have a: "a < length (blocks s)" "blocks s ! a = Some cb"
      by simp_all
    from Some ne dst src a b ab show ?thesis
      by (cases "deleter_ptr cb")
         (simp_all add: shared_ptr_move_assign_def observer_defs heap_defs)
  qed
qed

text \<open>Move assignment onto a handle that owns the same block as the source: the block is
  deleted before its address is taken over, and the destination is left dangling.\<close>

lemma move_assign_onto_co_owner:
  "after [Ctor 1 10, CopyCtor 2 1, MoveAssign 2 1] (read_cbp 2) = Inr (Some 0)
   \<and> after [Ctor 1 10, CopyCtor 2 1, MoveAssign 2 1] (block_cell 0) = Inr None
   \<and> after [Ctor 1 10, CopyCtor 2 1, MoveAssign 2 1] (use_count 2) = Inl UseAfterFree"
  by (simp add: observer_defs empty_heap_def shared_ptr_defs heap_defs)

text \<open>
  C2. Moving a non-empty handle has to leave the destination with the payload and the
  count unchanged and the source empty. Move assignment does so (\<open>move_assign_transfers\<close>),
  but the class has no move constructor: \<open>shared_ptr<T> b(std::move(a))\<close> runs the copy
  constructor. For every source that owns a live block, the source afterwards is still
  non-empty and still holds its payload, and the count of the block has gone up by one.
\<close>

theorem init_from_rvalue_copies:
  assumes src: "objects s other = Some so" "control_block_ptr so = Some b"
    and blk: "deref s (Some b) = Inr (b, cb)"
    and fresh: "objects s this = None"
  shows "\<exists>s'. shared_ptr_init_from_rvalue this other s = Inr s'
      \<and> operator_bool other s' = Inr True \<and> get other s' = Inr (sp_ptr so)
      \<and> read_cbp other s' = Inr (Some b)
      \<and> get this s' = Inr (sp_ptr so) \<and> read_cbp this s' = Inr (Some b)
      \<and> deref s' (Some b) = Inr (b, cb\<lparr>shared_refs := shared_refs cb + 1\<rparr>)
      \<and> use_count other s' = Inr (sint (shared_refs cb + 1))
      \<and> use_count this s' = Inr (sint (shared_refs cb + 1))"
proof -
  from deref_live[OF blk] have b: "b < length (blocks s)" "blocks s ! b = Some cb"
    by simp_all
  from src fresh have "other \<noteq> this" by auto
  with src fresh b show ?thesis
    by (simp add: shared_ptr_init_from_rvalue_def shared_ptr_copy_ctor_def observer_defs
          heap_defs)
qed

theorem init_from_rvalue_copies_witness:
  "after [Ctor 1 10] (use_count 1) = Inr 1
   \<and> after [Ctor 1 10, InitFromRvalue 2 1] (operator_bool 1) = Inr True
   \<and> after [Ctor 1 10, InitFromRvalue 2 1] (get 1) = Inr 10
   \<and> after [Ctor 1 10, InitFromRvalue 2 1] (use_count 1) = Inr 2
   \<and> after [Ctor 1 10, InitFromRvalue 2 1] (get 2) = Inr 10
   \<and> after [Ctor 1 10, InitFromRvalue 2 1] (use_count 2) = Inr 2"
proof -
  let ?cb = "\<lparr>cb_ptr = 10, shared_refs = 1, weak_refs = 0, deleter_ptr = default_deleter\<rparr>"
  let ?sp = "\<lparr>sp_ptr = 10, control_block_ptr = Some 0\<rparr>"
  let ?s = "\<lparr>blocks = [Some ?cb], objects = [1 \<mapsto> ?sp],
              deleter_calls = [], payload_deletes = []\<rparr>"
  have "objects ?s 1 = Some ?sp" "control_block_ptr ?sp = Some 0"
    "deref ?s (Some 0) = Inr (0, ?cb)" "objects ?s 2 = None"
    by (simp_all add: deref_def)
  from init_from_rvalue_copies[OF this]
  obtain s' where "shared_ptr_init_from_rvalue 2 1 ?s = Inr s'"
    "operator_bool 1 s' = Inr True" "get 1 s' = Inr 10" "use_count 1 s' = Inr 2"
    "get 2 s' = Inr 10" "use_count 2 s' = Inr 2"
    by auto
  moreover have "shared_ptr_ctor 1 10 empty_heap = Inr ?s"
    by (simp add: empty_heap_def shared_ptr_defs heap_defs)
  moreover have "use_count 1 ?s = Inr 1" by (simp add: use_count_def get_shared_cnt_def heap_defs)
  ultimately show ?thesis
    by (simp add: after_def)
qed

text \<open>
  C4. Move assignment onto a handle that owns a control block has to release that block
  only if the handle was its sole owner. The code never reads the count: whenever the
  destination owns a live block, the deleter runs on its payload and the block is deleted,
  and every other handle that owned the block is left pointing at the deleted block, so
  that its \<open>use_count()\<close> reads freed memory.
\<close>

theorem move_assign_releases_regardless:
  assumes ne: "this \<noteq> other"
    and dst: "objects s this = Some sp" "control_block_ptr sp = Some a"
    and blk: "deref s (Some a) = Inr (a, cb)"
    and src: "objects s other = Some so"
  shows "\<exists>s'. shared_ptr_move_assign this other s = Inr s'
      \<and> deleter_calls s' = deleter_calls s @ [(deleter_ptr cb, cb_ptr cb)]
      \<and> block_cell a s' = Inr None
      \<and> (\<forall>h. h \<noteq> this \<and> h \<noteq> other \<longrightarrow> objects s' h = objects s h)
      \<and> (\<forall>h. h \<noteq> this \<and> h \<noteq> other \<and> read_cbp h s = Inr (Some a) \<longrightarrow>
            use_count h s' = Inl UseAfterFree)"
proof -
  from deref_live[OF blk] have a: "a < length (blocks s)" "blocks s ! a = Some cb"
    by simp_all
  with ne dst src show ?thesis
    by (cases "deleter_ptr cb")
       (auto simp add: shared_ptr_move_assign_def observer_defs heap_defs)
qed

theorem move_assign_releases_regardless_witness:
  "after [Ctor 1 10, CopyCtor 2 1, Ctor 3 30] (use_count 2) = Inr 2
   \<and> after [Ctor 1 10, CopyCtor 2 1, Ctor 3 30, MoveAssign 2 3]
       (deleter_runs default_deleter 10) = Inr 1
   \<and> after [Ctor 1 10, CopyCtor 2 1, Ctor 3 30, MoveAssign 2 3] (block_cell 0) = Inr None
   \<and> after [Ctor 1 10, CopyCtor 2 1, Ctor 3 30, MoveAssign 2 3] (use_count 1) =
       Inl UseAfterFree"
proof -
  let ?cb = "\<lparr>cb_ptr = 10, shared_refs = 2, weak_refs = 0, deleter_ptr = default_deleter\<rparr>"
  let ?sp = "\<lparr>sp_ptr = 10, control_block_ptr = Some 0\<rparr>"
  let ?so = "\<lparr>sp_ptr = 30, control_block_ptr = Some 1\<rparr>"
  let ?s = "\<lparr>blocks = [Some ?cb, Some \<lparr>cb_ptr = 30, shared_refs = 1, weak_refs = 0,
                           deleter_ptr = default_deleter\<rparr>],
          objects = [1 \<mapsto> ?sp, 2 \<mapsto> ?sp, 3 \<mapsto> ?so],
          deleter_calls = [], payload_deletes = []\<rparr>"
  have "(2::nat) \<noteq> 3" "objects ?s 2 = Some ?sp" "control_block_ptr ?sp = Some 0"
    "deref ?s (Some 0) = Inr (0, ?cb)" "objects ?s 3 = Some ?so"
    by (simp_all add: deref_def)
  from move_assign_releases_regardless[OF this]
  obtain s' where s': "shared_ptr_move_assign 2 3 ?s = Inr s'"
    and dc: "deleter_calls s' = [(default_deleter, 10)]"
    and bc: "block_cell 0 s' = Inr None"
    and uaf: "\<forall>h. h \<noteq> 2 \<and> h \<noteq> 3 \<and> read_cbp h ?s = Inr (Some 0) \<longrightarrow>
            use_count h s' = Inl UseAfterFree"
    by auto
  from uaf have "use_count 1 s' = Inl UseAfterFree" by (simp add: read_cbp_def)
  moreover from dc have "deleter_runs default_deleter 10 s' = Inr 1"
    by (simp add: deleter_runs_def)
  moreover have "run [Ctor 1 10, CopyCtor 2 1, Ctor 3 30, MoveAssign 2 3] empty_heap = Inr s'"
    using heap_two_owners_and_another s'
    by (simp add: shared_ptr_defs heap_defs empty_heap_def)
  moreover have "use_count 2 ?s = Inr 2" by (simp add: use_count_def get_shared_cnt_def heap_defs)
  ultimately show ?thesis
    using bc heap_two_owners_and_another by (simp add: after_def)
qed

section \<open>reset\<close>

text \<open>
  C5. A handle without a control block has to have a null raw pointer, and after
  \<open>reset()\<close> the handle has to be empty with \<open>get()\<close> null. \<open>reset()\<close> clears
  \<open>control_block_ptr\<close> but not \<open>ptr_\<close>: for every handle that owns a live block, after
  \<open>reset()\<close> the boolean conversion is false and \<open>use_count()\<close> is 0, but \<open>get()\<close> still
  returns the old raw pointer, the address of the payload the deleter has just been
  called on.
\<close>

theorem reset_keeps_raw_pointer:
  assumes "objects s h = Some sp" "control_block_ptr sp = Some a"
    "deref s (Some a) = Inr (a, cb)"
  shows "\<exists>s'. shared_ptr_reset h s = Inr s'
      \<and> operator_bool h s' = Inr False \<and> use_count h s' = Inr 0
      \<and> read_cbp h s' = Inr None \<and> get h s' = Inr (sp_ptr sp)
      \<and> deleter_calls s' = deleter_calls s @ [(deleter_ptr cb, cb_ptr cb)]
      \<and> block_cell a s' = Inr None"
proof -
  from deref_live[OF assms(3)] have a: "a < length (blocks s)" "blocks s ! a = Some cb"
    by simp_all
  with assms(1,2) show ?thesis
    by (cases "deleter_ptr cb") (simp_all add: shared_ptr_reset_def observer_defs heap_defs)
qed

theorem reset_keeps_raw_pointer_witness:
  "after [Ctor 1 10, Reset 1] (operator_bool 1) = Inr False
   \<and> after [Ctor 1 10, Reset 1] (use_count 1) = Inr 0
   \<and> after [Ctor 1 10, Reset 1] (deleter_runs default_deleter 10) = Inr 1
   \<and> after [Ctor 1 10, Reset 1] (get 1) = Inr 10"
proof -
  let ?cb = "\<lparr>cb_ptr = 10, shared_refs = 1, weak_refs = 0, deleter_ptr = default_deleter\<rparr>"
  let ?sp = "\<lparr>sp_ptr = 10, control_block_ptr = Some 0\<rparr>"
  let ?s = "\<lparr>blocks = [Some ?cb], objects = [1 \<mapsto> ?sp],
              deleter_calls = [], payload_deletes = []\<rparr>"
  have "objects ?s 1 = Some ?sp" "control_block_ptr ?sp = Some 0"
    "deref ?s (Some 0) = Inr (0, ?cb)"
    by (simp_all add: deref_def)
  from reset_keeps_raw_pointer[OF this]
  obtain s' where "shared_ptr_reset 1 ?s = Inr s'"
    "operator_bool 1 s' = Inr False" "use_count 1 s' = Inr 0" "get 1 s' = Inr 10"
    "deleter_calls s' = [(default_deleter, 10)]"
    by auto
  moreover have "shared_ptr_ctor 1 10 empty_heap = Inr ?s"
    by (simp add: empty_heap_def shared_ptr_defs heap_defs)
  ultimately show ?thesis
    by (simp add: after_def deleter_runs_def)
qed

text \<open>
  C10. \<open>reset(p)\<close> with \<open>p\<close> null, on a handle that is empty or owns a live block, always
  allocates a fresh control block over the null payload: afterwards the boolean conversion
  is true, \<open>use_count()\<close> is 1 and \<open>get()\<close> is null. Constructing a handle from a null
  pointer allocates nothing and gives a handle whose boolean conversion is false.
\<close>

theorem reset_null_allocates_block:
  assumes obj: "objects s h = Some sp"
    and ok: "control_block_ptr sp = None
             \<or> (\<exists>a cb. deref s (control_block_ptr sp) = Inr (a, cb))"
    and fresh: "objects s h2 = None"
  shows "\<exists>s' s''. shared_ptr_reset_ptr h 0 s = Inr s'
      \<and> operator_bool h s' = Inr True \<and> use_count h s' = Inr 1 \<and> get h s' = Inr 0
      \<and> read_cbp h s' = Inr (Some (length (blocks s)))
      \<and> length (blocks s') = Suc (length (blocks s))
      \<and> blocks s' ! length (blocks s) =
           Some \<lparr>cb_ptr = 0, shared_refs = 1, weak_refs = 0, deleter_ptr = default_deleter\<rparr>
      \<and> shared_ptr_ctor h2 0 s = Inr s''
      \<and> operator_bool h2 s'' = Inr False \<and> use_count h2 s'' = Inr 0 \<and> get h2 s'' = Inr 0
      \<and> read_cbp h2 s'' = Inr None \<and> blocks s'' = blocks s"
proof (cases "control_block_ptr sp")
  case None
  with obj fresh show ?thesis
    by (simp add: shared_ptr_reset_ptr_def shared_ptr_ctor_def observer_defs heap_defs)
next
  case (Some b)
  with ok obtain cb where d: "deref s (Some b) = Inr (b, cb)"
    by (auto dest: deref_live)
  from deref_live[OF d] have b: "b < length (blocks s)" "blocks s ! b = Some cb"
    by simp_all
  with obj fresh Some show ?thesis
    by (cases "deleter_ptr cb")
       (simp_all add: shared_ptr_reset_ptr_def shared_ptr_ctor_def observer_defs heap_defs
          nth_append)
qed

theorem reset_null_allocates_block_witness:
  "after [Ctor 1 10, ResetPtr 1 0] (operator_bool 1) = Inr True
   \<and> after [Ctor 1 10, ResetPtr 1 0] (use_count 1) = Inr 1
   \<and> after [Ctor 1 10, ResetPtr 1 0] (get 1) = Inr 0
   \<and> after [Ctor 1 10, ResetPtr 1 0] (read_cbp 1) = Inr (Some 1)
   \<and> after [Ctor 1 10, Ctor 2 0] (operator_bool 2) = Inr False
   \<and> after [Ctor 1 10, Ctor 2 0] (read_cbp 2) = Inr None"
proof -
  let ?s = "\<lparr>blocks = [Some \<lparr>cb_ptr = 10, shared_refs = 1, weak_refs = 0,
                               deleter_ptr = default_deleter\<rparr>],
              objects = [1 \<mapsto> \<lparr>sp_ptr = 10, control_block_ptr = Some 0\<rparr>],
              deleter_calls = [], payload_deletes = []\<rparr>"
  have "objects ?s 1 = Some \<lparr>sp_ptr = 10, control_block_ptr = Some 0\<rparr>" by simp
  moreover have "control_block_ptr \<lparr>sp_ptr = 10, control_block_ptr = Some 0\<rparr> = None
      \<or> (\<exists>a cb. deref ?s (control_block_ptr \<lparr>sp_ptr = 10, control_block_ptr = Some 0\<rparr>)
                  = Inr (a, cb))"
    by (simp add: deref_def)
  moreover have "objects ?s 2 = None" by simp
  ultimately obtain s' s'' where
    "shared_ptr_reset_ptr 1 0 ?s = Inr s'" "operator_bool 1 s' = Inr True"
    "use_count 1 s' = Inr 1" "get 1 s' = Inr 0" "read_cbp 1 s' = Inr (Some (length (blocks ?s)))"
    "shared_ptr_ctor 2 0 ?s = Inr s''" "operator_bool 2 s'' = Inr False"
    "read_cbp 2 s'' = Inr None"
    using reset_null_allocates_block [of ?s 1 _ 2] by blast
  moreover have "shared_ptr_ctor 1 10 empty_heap = Inr ?s"
    by (simp add: empty_heap_def shared_ptr_defs heap_defs)
  ultimately show ?thesis
    by (simp add: after_def)
qed

section \<open>Copy assignment onto a shared handle\<close>

text \<open>What the code does when a handle whose block has a count above 1 is copy-assigned
  from a handle that is empty or owns a live block: no deleter runs and nothing is
  released, no other handle changes, and the count of the old block is never decremented;
  it goes up by one when the source is another owner of that same block.\<close>

lemma copy_assign_onto_shared_frame:
  assumes obj: "objects s this = Some sp" "control_block_ptr sp = Some a"
    and blk: "deref s (Some a) = Inr (a, cb)" and shared: "1 < shared_refs cb"
    and src: "objects s other = Some so"
    and srcok: "control_block_ptr so = None
                \<or> (\<exists>b cb'. deref s (control_block_ptr so) = Inr (b, cb'))"
  shows "\<exists>s'. shared_ptr_copy_assign this other s = Inr s'
      \<and> deleter_calls s' = deleter_calls s \<and> payload_deletes s' = payload_deletes s
      \<and> deref s' (Some a) =
          Inr (a, if other \<noteq> this \<and> control_block_ptr so = Some a
                  then cb\<lparr>shared_refs := shared_refs cb + 1\<rparr> else cb)
      \<and> (\<forall>h. h \<noteq> this \<longrightarrow> objects s' h = objects s h)
      \<and> (\<forall>h. h \<noteq> this \<and> read_cbp h s = Inr (Some a) \<longrightarrow>
            use_count h s' =
              (if other \<noteq> this \<and> control_block_ptr so = Some a
               then Inr (sint (shared_refs cb + 1)) else use_count h s))"
proof -
  from deref_live[OF blk] have a: "a < length (blocks s)" "blocks s ! a = Some cb"
    by simp_all
  from shared have n1: "shared_refs cb \<noteq> 1" by auto
  have step: "\<exists>s'. shared_ptr_copy_assign this other s = Inr s'
      \<and> deleter_calls s' = deleter_calls s \<and> payload_deletes s' = payload_deletes s
      \<and> deref s' (Some a) =
          Inr (a, if other \<noteq> this \<and> control_block_ptr so = Some a
                  then cb\<lparr>shared_refs := shared_refs cb + 1\<rparr> else cb)
      \<and> (\<forall>h. h \<noteq> this \<longrightarrow> objects s' h = objects s h)"
  proof (cases "this = other")
    case True
    with obj have "shared_ptr_copy_assign this other s = Inr s"
      by (simp add: shared_ptr_copy_assign_def read_cbp_def)
    with True blk show ?thesis by simp
  next
    case ne: False
    show ?thesis
    proof (cases "control_block_ptr so")
      case None
      with ne obj a n1 src show ?thesis
        by (simp add: shared_ptr_copy_assign_def heap_defs)
    next
      case (Some b)
      with srcok obtain cb' where "deref s (Some b) = Inr (b, cb')"
        by (auto dest: deref_live)
      from deref_live[OF this] have b: "b < length (blocks s)" "blocks s ! b = Some cb'"
        by simp_all
      show ?thesis
      proof (cases "b = a")
        case True
        with Some ne obj a n1 src b show ?thesis
          by (auto simp add: shared_ptr_copy_assign_def heap_defs)
      next
        case False
        with Some ne obj a n1 src b show ?thesis
          by (simp add: shared_ptr_copy_assign_def heap_defs)
      qed
    qed
  qed
  then obtain s' where s': "shared_ptr_copy_assign this other s = Inr s'"
    and dc: "deleter_calls s' = deleter_calls s" "payload_deletes s' = payload_deletes s"
    and d': "deref s' (Some a) =
          Inr (a, if other \<noteq> this \<and> control_block_ptr so = Some a
                  then cb\<lparr>shared_refs := shared_refs cb + 1\<rparr> else cb)"
    and frame: "\<forall>h. h \<noteq> this \<longrightarrow> objects s' h = objects s h"
    by blast
  have "\<forall>h. h \<noteq> this \<and> read_cbp h s = Inr (Some a) \<longrightarrow>
            use_count h s' =
              (if other \<noteq> this \<and> control_block_ptr so = Some a
               then Inr (sint (shared_refs cb + 1)) else use_count h s)"
  proof (intro allI impI)
    fix h assume h: "h \<noteq> this \<and> read_cbp h s = Inr (Some a)"
    with frame have "objects s' h = objects s h" by blast
    with h have r': "read_cbp h s' = Inr (Some a)" by (simp add: read_cbp_def)
    from h blk have "use_count h s = Inr (sint (shared_refs cb))"
      by (simp add: use_count_def get_shared_cnt_def get_shared_refs_def)
    moreover from r' d' have "use_count h s' =
        Inr (sint (shared_refs (if other \<noteq> this \<and> control_block_ptr so = Some a
                  then cb\<lparr>shared_refs := shared_refs cb + 1\<rparr> else cb)))"
      by (simp add: use_count_def get_shared_cnt_def get_shared_refs_def)
    ultimately show "use_count h s' =
              (if other \<noteq> this \<and> control_block_ptr so = Some a
               then Inr (sint (shared_refs cb + 1)) else use_count h s)"
      by simp
  qed
  with s' dc d' frame show ?thesis by blast
qed

text \<open>
  C9. Copy-assigning onto a handle whose control block has a count above 1 has to leave
  that block unchanged, so that the remaining owners observe the same count as before.
  Handles 1 and 2 share one block with count 2. After \<open>h2 = h1\<close> both still own that block
  and nothing else does, but its count is 3 and both report 3: the assignment adopts and
  increments the block it already owned, without the decrement for the ownership it gave
  up. When both handles have then been destroyed the block is still allocated with count
  1 and its deleter has never run.
\<close>

theorem copy_assign_between_co_owners_overcounts:
  "after [Ctor 1 10, CopyCtor 2 1] (use_count 1) = Inr 2
   \<and> after [Ctor 1 10, CopyCtor 2 1] (use_count 2) = Inr 2
   \<and> after [Ctor 1 10, CopyCtor 2 1, CopyAssign 2 1] (read_cbp 1) = Inr (Some 0)
   \<and> after [Ctor 1 10, CopyCtor 2 1, CopyAssign 2 1] (read_cbp 2) = Inr (Some 0)
   \<and> after [Ctor 1 10, CopyCtor 2 1, CopyAssign 2 1] (use_count 1) = Inr 3
   \<and> after [Ctor 1 10, CopyCtor 2 1, CopyAssign 2 1] (use_count 2) = Inr 3
   \<and> after [Ctor 1 10, CopyCtor 2 1, CopyAssign 2 1] (block_cell 0) =
       Inr (Some \<lparr>cb_ptr = 10, shared_refs = 3, weak_refs = 0,
                  deleter_ptr = default_deleter\<rparr>)
   \<and> after [Ctor 1 10, CopyCtor 2 1, CopyAssign 2 1, Dtor 2, Dtor 1]
       (deleter_runs default_deleter 10) = Inr 0
   \<and> after [Ctor 1 10, CopyCtor 2 1, CopyAssign 2 1, Dtor 2, Dtor 1] (block_cell 0) =
       Inr (Some \<lparr>cb_ptr = 10, shared_refs = 1, weak_refs = 0,
                  deleter_ptr = default_deleter\<rparr>)"
  by (simp add: observer_defs empty_heap_def shared_ptr_defs heap_defs)

section \<open>Handles used from several threads: the counters\<close>

text \<open>Run without interleaving, the steps of a thread are the sequential code.\<close>

lemma increment_steps_sequential:
  "and_then (run_steps (increment_steps t c) \<lparr>mheap = s, reg = r\<rparr>) (\<lambda>m. Inr (mheap m))
     = increment_shared c s"
  by (cases "deref s c")
     (auto simp add: increment_steps_def increment_shared_def get_shared_refs_def deref_def
        store_block_def split: option.splits if_splits)

lemma dtor_steps_sequential:
  assumes "objects s h = Some sp" "control_block_ptr sp = Some a"
  shows "shared_ptr_dtor h s =
     and_then (run_steps (dtor_steps t (Some a)) \<lparr>mheap = s, reg = r\<rparr>)
       (\<lambda>m. free_object h (mheap m))"
proof (cases "decrement_shared (Some a) s")
  case (Inl e)
  with assms show ?thesis
    by (simp add: shared_ptr_dtor_def dtor_steps_def read_cbp_def)
next
  case (Inr s1)
  show ?thesis
  proof (cases "get_shared_refs (Some a) s1")
    case (Inl e)
    with assms Inr show ?thesis
      by (simp add: shared_ptr_dtor_def dtor_steps_def read_cbp_def)
  next
    case n1: (Inr n1)
    show ?thesis
    proof (cases "n1 = 0")
      case False
      with assms Inr n1 show ?thesis
        by (simp add: shared_ptr_dtor_def dtor_steps_def read_cbp_def)
    next
      case True
      show ?thesis
      proof (cases "call_deleter (Some a) s1")
        case (Inl e)
        with assms Inr n1 True show ?thesis
          by (simp add: shared_ptr_dtor_def dtor_steps_def read_cbp_def)
      next
        case s2: (Inr s2)
        show ?thesis
        proof (cases "get_shared_refs (Some a) s2")
          case (Inl e)
          with assms Inr n1 True s2 show ?thesis
            by (simp add: shared_ptr_dtor_def dtor_steps_def read_cbp_def)
        next
          case n2: (Inr n2)
          show ?thesis
          proof (cases "get_weak_refs (Some a) s2")
            case (Inl e)
            with assms Inr n1 True s2 n2 show ?thesis
              by (simp add: shared_ptr_dtor_def dtor_steps_def read_cbp_def)
          next
            case w: (Inr w)
            show ?thesis
            proof (cases "delete_ControlBlock (Some a) s2")
              case (Inl e)
              with assms Inr n1 True s2 n2 w show ?thesis
                by (simp add: shared_ptr_dtor_def dtor_steps_def read_cbp_def)
            next
              case (Inr s3)
              with assms \<open>decrement_shared (Some a) s = Inr s1\<close> n1 True s2 n2 w
              show ?thesis
                by (simp add: shared_ptr_dtor_def dtor_steps_def read_cbp_def)
            qed
          qed
        qed
      qed
    qed
  qed
qed

text \<open>
  C6. Copying and destroying handles of one control block from different threads has to
  be safe: each mutation of a counter one atomic read-modify-write, and the release
  decided by the value the decrement itself returns, so that no two threads both see the
  count reach zero. The code loads the counter and then exchanges, discarding what
  \<open>exchange\<close> returns, and decides the release by a later load.

  Two threads that each increment the count 1 of a block, interleaved as
  \<open>racing_increments\<close>, leave it at 2, where running one after the other leaves 3: an
  increment is lost. Two threads that each destroy one of the two handles of a block,
  interleaved as \<open>racing_destructors\<close>, both load the count 0 after both decrements: the
  deleter runs twice on payload 10 after the first six steps, and the whole schedule ends
  with thread 2 reading the block that thread 1 has deleted; run one after the other the
  two destructors call the deleter once.
\<close>

theorem racing_threads_break_the_count:
  "steps_of 1 racing_increments = increment_steps 1 (Some 0)
   \<and> steps_of 2 racing_increments = increment_steps 2 (Some 0)
   \<and> after_schedule [Ctor 1 10] racing_increments (get_shared_refs (Some 0)) = Inr 2
   \<and> after_schedule [Ctor 1 10] (increment_steps 1 (Some 0) @ increment_steps 2 (Some 0))
       (get_shared_refs (Some 0)) = Inr 3
   \<and> steps_of 1 racing_destructors = dtor_steps 1 (Some 0)
   \<and> steps_of 2 racing_destructors = dtor_steps 2 (Some 0)
   \<and> after_schedule [Ctor 1 10, CopyCtor 2 1] (take 6 racing_destructors)
       (deleter_runs default_deleter 10) = Inr 2
   \<and> after_schedule [Ctor 1 10, CopyCtor 2 1] racing_destructors
       (deleter_runs default_deleter 10) = Inl UseAfterFree
   \<and> after_schedule [Ctor 1 10, CopyCtor 2 1] (dtor_steps 1 (Some 0) @ dtor_steps 2 (Some 0))
       (deleter_runs default_deleter 10) = Inr 1"
  by (simp add: steps_of_def racing_increments_def racing_destructors_def
        increment_steps_def dtor_steps_def after_schedule_def observer_defs empty_heap_def
        shared_ptr_defs heap_defs)

end
